theory Spec2Isabelle
  imports Main "HOL-Library.AList"
begin

section \<open>Python values\<close>

text \<open>
  The note service (\<^verbatim>\<open>app/services/note_service_optimized.py\<close>) keeps notes in
  Firestore sub-collections \<^verbatim>\<open>users/{uid}/notes/{note_id}\<close> and caches them in Redis
  (\<^verbatim>\<open>app/core/cache.py\<close>).  Every method of the source becomes a function from the state
  it touches to a result and the new state; a raised exception is the \<open>Inl\<close> branch of
  the result.
\<close>

datatype exn =
    StoreError              \<comment> \<open>raised by the Firestore client\<close>
  | CacheError              \<comment> \<open>raised by the Redis client\<close>
  | KeyError string
  | ValidationError         \<comment> \<open>pydantic\<close>
  | TypeError
  | ValueError
  | HTTPException nat

subsection \<open>\<^verbatim>\<open>str(int)\<close> and \<^verbatim>\<open>str(bool)\<close>, as f-strings format them\<close>

definition digit :: "nat \<Rightarrow> char" where
  "digit d = ''0123456789'' ! d"

fun str_nat :: "nat \<Rightarrow> string" where
  "str_nat n = (if n < 10 then [digit n] else str_nat (n div 10) @ [digit (n mod 10)])"

declare str_nat.simps [simp del]

definition str_int :: "int \<Rightarrow> string" where
  "str_int i = (if i < 0 then CHR ''-'' # str_nat (nat (- i)) else str_nat (nat i))"

definition str_bool :: "bool \<Rightarrow> string" where
  "str_bool b = (if b then ''True'' else ''False'')"

section \<open>Cache keys (\<^verbatim>\<open>CacheService\<close>)\<close>

definition get_notes_cache_key :: "string \<Rightarrow> bool \<Rightarrow> int \<Rightarrow> int \<Rightarrow> string" where
  "get_notes_cache_key user_id include_deleted limit offset =
     ''notes:user:'' @ user_id @ '':deleted:'' @ str_bool include_deleted
       @ '':limit:'' @ str_int limit @ '':offset:'' @ str_int offset"

definition get_note_cache_key :: "string \<Rightarrow> string \<Rightarrow> string" where
  "get_note_cache_key note_id user_id = ''note:'' @ note_id @ '':user:'' @ user_id"

definition get_user_notes_count_key :: "string \<Rightarrow> bool \<Rightarrow> string" where
  "get_user_notes_count_key user_id include_deleted =
     ''notes_count:user:'' @ user_id @ '':deleted:'' @ str_bool include_deleted"

section \<open>Calls that may raise\<close>

text \<open>
  A call takes the state it works on and returns either the exception it raised or its
  value, with the state it left behind.  \<open>try_except\<close> is Python's
  \<^verbatim>\<open>try: ... except Exception as e: ...\<close>.
\<close>

type_synonym ('a, 's) call = "'s \<Rightarrow> (exn + 'a) \<times> 's"

definition ret :: "'a \<Rightarrow> ('a, 's) call" where
  "ret a s = (Inr a, s)"

definition raise :: "exn \<Rightarrow> ('a, 's) call" where
  "raise e s = (Inl e, s)"

definition lift :: "exn + 'a \<Rightarrow> ('a, 's) call" where
  "lift r s = (r, s)"

definition andthen :: "('a, 's) call \<Rightarrow> ('a \<Rightarrow> ('b, 's) call) \<Rightarrow> ('b, 's) call" where
  "andthen m f s = (case m s of (Inl e, s') \<Rightarrow> (Inl e, s') | (Inr a, s') \<Rightarrow> f a s')"

definition try_except :: "('a, 's) call \<Rightarrow> (exn \<Rightarrow> ('a, 's) call) \<Rightarrow> ('a, 's) call" where
  "try_except m h s = (case m s of (Inl e, s') \<Rightarrow> h e s' | (Inr a, s') \<Rightarrow> (Inr a, s'))"

section \<open>Notes (\<^verbatim>\<open>app/models/note.py\<close>)\<close>

text \<open>
  A \<^verbatim>\<open>datetime\<close> is a natural number, counted from \<^verbatim>\<open>datetime.min\<close>.
  \<^verbatim>\<open>NoteCreate\<close> adds nothing to \<^verbatim>\<open>NoteBase\<close>; \<^verbatim>\<open>Note\<close> adds nothing to
  \<^verbatim>\<open>NoteInDB\<close>, whose field \<^verbatim>\<open>id\<close> is \<open>note_id\<close> here.
\<close>

record note_base =
  title :: string
  content :: string
  is_deleted :: bool
  is_pinned :: bool
  format :: string
  color :: string

record "note" = note_base +
  note_id :: string
  user_id :: string
  created_at :: nat
  updated_at :: nat

record note_update =
  upd_title :: "string option"
  upd_content :: "string option"
  upd_is_deleted :: "bool option"
  upd_is_pinned :: "bool option"
  upd_format :: "string option"
  upd_color :: "string option"

definition datetime_min :: nat where
  "datetime_min = 0"

text \<open>The \<^verbatim>\<open>Field\<close> constraints: a title of 1 to 200 characters, a content of at least one.\<close>

definition valid_note :: "note \<Rightarrow> bool" where
  "valid_note n = (1 \<le> length (title n) \<and> length (title n) \<le> 200 \<and> 1 \<le> length (content n))"

section \<open>Documents\<close>

text \<open>
  A Firestore document is a dict from field names to values.  As an association list the
  first entry of a key is the one that counts (\<open>map_of\<close>).
\<close>

datatype fval = FStr string | FBool bool | FTime nat

type_synonym doc = "(string \<times> fval) list"

text \<open>\<^verbatim>\<open>{"id": doc_id, **data}\<close>: the fields of \<open>data\<close> win.\<close>

definition with_id :: "string \<Rightarrow> doc \<Rightarrow> doc" where
  "with_id nid data = AList.merge [(''id'', FStr nid)] data"

definition item :: "doc \<Rightarrow> string \<Rightarrow> exn + fval" where
  "item d k = (case map_of d k of None \<Rightarrow> Inl (KeyError k) | Some v \<Rightarrow> Inr v)"

definition first :: "exn + 'a \<Rightarrow> ('a \<Rightarrow> exn + 'b) \<Rightarrow> exn + 'b" where
  "first r f = (case r of Inl e \<Rightarrow> Inl e | Inr a \<Rightarrow> f a)"

definition get_or :: "doc \<Rightarrow> string \<Rightarrow> fval \<Rightarrow> fval" where
  "get_or d k dflt = (case map_of d k of None \<Rightarrow> dflt | Some v \<Rightarrow> v)"

text \<open>
  The constructor \<^verbatim>\<open>Note(id=..., title=..., ...)\<close> with pydantic's validation.  A value of
  another type than the field's is a validation error here (pydantic's coercions of
  strings are not modelled).
\<close>

definition Note ::
  "fval \<Rightarrow> fval \<Rightarrow> fval \<Rightarrow> fval \<Rightarrow> fval \<Rightarrow> fval \<Rightarrow> fval \<Rightarrow> string \<Rightarrow> fval \<Rightarrow> fval \<Rightarrow> exn + note" where
  "Note v_id v_title v_content v_deleted v_pinned v_format v_color uid v_created v_updated =
     (case (v_id, v_title, v_content, v_deleted, v_pinned, v_format, v_color, v_created, v_updated) of
        (FStr i, FStr t, FStr c, FBool del, FBool pin, FStr f, FStr col, FTime ca, FTime ua) \<Rightarrow>
          (let n = \<lparr>title = t, content = c, is_deleted = del, is_pinned = pin, format = f,
                    color = col, note_id = i, user_id = uid, created_at = ca, updated_at = ua\<rparr>
           in if valid_note n then Inr n else Inl ValidationError)
      | _ \<Rightarrow> Inl ValidationError)"

text \<open>
  The block that all four service methods share:
  \<^verbatim>\<open>Note(id=d["id"], title=d["title"], content=d["content"], is_deleted=d["is_deleted"],
       is_pinned=d.get("is_pinned", False), format=d.get("format", "text"),
       color=d.get("color", "primary"), user_id=user_id,
       created_at=d["created_at"], updated_at=d["updated_at"])\<close>
  The subscripts are evaluated in this order; the first missing key raises.
\<close>

definition note_of_dict :: "string \<Rightarrow> doc \<Rightarrow> exn + note" where
  "note_of_dict uid d =
     first (item d ''id'') (\<lambda>v_id.
     first (item d ''title'') (\<lambda>v_title.
     first (item d ''content'') (\<lambda>v_content.
     first (item d ''is_deleted'') (\<lambda>v_deleted.
     first (item d ''created_at'') (\<lambda>v_created.
     first (item d ''updated_at'') (\<lambda>v_updated.
       Note v_id v_title v_content v_deleted
         (get_or d ''is_pinned'' (FBool False)) (get_or d ''format'' (FStr ''text''))
         (get_or d ''color'' (FStr ''primary'')) uid v_created v_updated))))))"

section \<open>The Firestore client\<close>

text \<open>
  The store is outside the repository.  Its state: whether the client was initialised
  (\<^verbatim>\<open>db\<close> is not \<^verbatim>\<open>None\<close>), the sub-collections \<^verbatim>\<open>users/{uid}/notes\<close> in the order the
  store streams their documents, and a schedule of failures: each request to the store
  takes the head of \<open>store_faults\<close> and fails when it is \<open>True\<close>; an empty schedule is a
  store that answers.  \<open>store_log\<close> holds the errors that \<^verbatim>\<open>FirestoreService\<close> wrote with
  \<^verbatim>\<open>logging.error\<close>, the latest first.
\<close>

record firestore =
  db :: bool
  users :: "(string \<times> (string \<times> doc) list) list"
  store_faults :: "bool list"
  store_log :: "exn list"

definition notes_of :: "firestore \<Rightarrow> string \<Rightarrow> (string \<times> doc) list" where
  "notes_of fs uid = (case map_of (users fs) uid of None \<Rightarrow> [] | Some ns \<Rightarrow> ns)"

definition put_notes :: "string \<Rightarrow> (string \<times> doc) list \<Rightarrow> firestore \<Rightarrow> firestore" where
  "put_notes uid ns fs = fs\<lparr>users := AList.update uid ns (users fs)\<rparr>"

definition store_request :: "(unit, firestore) call" where
  "store_request fs =
     (case store_faults fs of
        [] \<Rightarrow> (Inr (), fs)
      | b # bs \<Rightarrow> ((if b then Inl StoreError else Inr ()), fs\<lparr>store_faults := bs\<rparr>))"

text \<open>\<^verbatim>\<open>doc_ref.set(data)\<close> replaces the document, or creates it at the end.\<close>

definition doc_set :: "string \<Rightarrow> string \<Rightarrow> doc \<Rightarrow> (unit, firestore) call" where
  "doc_set uid nid data =
     andthen store_request
       (\<lambda>_ fs. (Inr (), put_notes uid (AList.update nid data (notes_of fs uid)) fs))"

text \<open>\<^verbatim>\<open>doc_ref.get()\<close>: \<open>None\<close> stands for a snapshot whose \<^verbatim>\<open>exists\<close> is false.\<close>

definition doc_get :: "string \<Rightarrow> string \<Rightarrow> (doc option, firestore) call" where
  "doc_get uid nid =
     andthen store_request (\<lambda>_ fs. (Inr (map_of (notes_of fs uid) nid), fs))"

text \<open>
  \<^verbatim>\<open>doc_ref.update(data)\<close> writes the given fields and leaves the others; it fails on a
  document that does not exist.
\<close>

definition doc_update :: "string \<Rightarrow> string \<Rightarrow> doc \<Rightarrow> (unit, firestore) call" where
  "doc_update uid nid data =
     andthen store_request
       (\<lambda>_ fs. case map_of (notes_of fs uid) nid of
                  None \<Rightarrow> (Inl StoreError, fs)
                | Some old \<Rightarrow>
                    (Inr (), put_notes uid (AList.update nid (AList.merge old data) (notes_of fs uid)) fs))"

text \<open>
  \<^verbatim>\<open>query.where(field, "==", value)\<close> for each filter, \<^verbatim>\<open>query.limit(n)\<close> when a limit was
  set, then \<^verbatim>\<open>query.stream()\<close>.  Equality is the only operator the service passes.  The
  store rejects a negative limit.
\<close>

definition matches :: "(string \<times> fval) list \<Rightarrow> doc \<Rightarrow> bool" where
  "matches filters d = list_all (\<lambda>(field, v). map_of d field = Some v) filters"

definition query_stream ::
  "string \<Rightarrow> (string \<times> fval) list \<Rightarrow> int option \<Rightarrow> ((string \<times> doc) list, firestore) call" where
  "query_stream uid filters lim =
     andthen store_request
       (\<lambda>_ fs. let found = filter (\<lambda>(nid, d). matches filters d) (notes_of fs uid)
               in case lim of
                    None \<Rightarrow> (Inr found, fs)
                  | Some l \<Rightarrow> if l < 0 then (Inl StoreError, fs)
                              else (Inr (take (nat l) found), fs))"

section \<open>\<^verbatim>\<open>FirestoreService\<close> (\<^verbatim>\<open>app/core/database.py\<close>)\<close>

text \<open>
  Every method is \<^verbatim>\<open>try: ... except Exception as e: logging.error(...); raise\<close>.
\<close>

definition logging_error :: "exn \<Rightarrow> (unit, firestore) call" where
  "logging_error e fs = (Inr (), fs\<lparr>store_log := e # store_log fs\<rparr>)"

definition log_and_raise :: "exn \<Rightarrow> ('a, firestore) call" where
  "log_and_raise e = andthen (logging_error e) (\<lambda>_. raise e)"

definition get_subcollection :: "(unit, firestore) call" where
  "get_subcollection fs = (if \<not> db fs then (Inl StoreError, fs) else (Inr (), fs))"

definition create_subcollection_document :: "string \<Rightarrow> string \<Rightarrow> doc \<Rightarrow> (doc, firestore) call" where
  "create_subcollection_document uid nid data =
     try_except
       (andthen get_subcollection (\<lambda>_.
        andthen (doc_set uid nid data) (\<lambda>_.
        ret (with_id nid data))))
       log_and_raise"

definition get_subcollection_document :: "string \<Rightarrow> string \<Rightarrow> (doc option, firestore) call" where
  "get_subcollection_document uid nid =
     try_except
       (andthen get_subcollection (\<lambda>_.
        andthen (doc_get uid nid) (\<lambda>snapshot.
        case snapshot of
          Some d \<Rightarrow> ret (Some (with_id nid d))
        | None \<Rightarrow> ret None)))
       log_and_raise"

definition update_subcollection_document ::
  "string \<Rightarrow> string \<Rightarrow> doc \<Rightarrow> (doc option, firestore) call" where
  "update_subcollection_document uid nid data =
     try_except
       (andthen get_subcollection (\<lambda>_.
        andthen (doc_update uid nid data) (\<lambda>_.
        andthen (get_subcollection_document uid nid) (\<lambda>updated_doc.
        ret updated_doc))))
       log_and_raise"

text \<open>
  \<^verbatim>\<open>if limit:\<close> sets no limit for \<^verbatim>\<open>None\<close> and for \<open>0\<close>.  The service never passes
  \<^verbatim>\<open>order_by\<close>.
\<close>

definition query_subcollection ::
  "string \<Rightarrow> (string \<times> fval) list \<Rightarrow> int option \<Rightarrow> (doc list, firestore) call" where
  "query_subcollection uid filters lim =
     try_except
       (andthen get_subcollection (\<lambda>_.
        andthen (query_stream uid filters (if lim = Some 0 then None else lim)) (\<lambda>docs.
        ret (map (\<lambda>(nid, d). with_id nid d) docs))))
       log_and_raise"

section \<open>The Redis client\<close>

text \<open>
  The cache backend is outside the repository as well.  A stored value stands for the
  string the service wrote: the JSON text of a note's dict (\<open>RNote\<close>), of a list of them
  (\<open>RNotes\<close>), or the decimal text of an integer (\<open>RInt\<close>); \<^verbatim>\<open>json.dumps(.., default=str)\<close>
  followed by \<^verbatim>\<open>json.loads\<close> and \<^verbatim>\<open>Note(**d)\<close> is taken to give the note back.  Each key
  holds its value and its time to live (\<open>None\<close>: no expiry).  \<open>cache_faults\<close> schedules
  the failures of the backend as \<open>store_faults\<close> does for the store, and \<open>cache_log\<close>
  holds the errors that \<^verbatim>\<open>CacheService\<close> wrote with \<^verbatim>\<open>logger.error\<close>, the latest first.
\<close>

datatype rvalue = RNote "note" | RNotes "note list" | RInt int

record redis =
  redis_client :: bool
  env_ok :: bool
  kv :: "(string \<times> rvalue \<times> nat option) list"
  cache_faults :: "bool list"
  cache_log :: "exn list"

definition cache_ttl :: nat where
  "cache_ttl = 300"

definition redis_request :: "(unit, redis) call" where
  "redis_request r =
     (case cache_faults r of
        [] \<Rightarrow> (Inr (), r)
      | b # bs \<Rightarrow> ((if b then Inl CacheError else Inr ()), r\<lparr>cache_faults := bs\<rparr>))"

definition redis_get :: "string \<Rightarrow> (rvalue option, redis) call" where
  "redis_get key =
     andthen redis_request (\<lambda>_ r. (Inr (map_option fst (map_of (kv r) key)), r))"

definition redis_setex :: "string \<Rightarrow> nat \<Rightarrow> rvalue \<Rightarrow> (unit, redis) call" where
  "redis_setex key ttl v =
     andthen redis_request (\<lambda>_ r. (Inr (), r\<lparr>kv := AList.update key (v, Some ttl) (kv r)\<rparr>))"

text \<open>
  \<^verbatim>\<open>KEYS pattern\<close>: \<open>*\<close> matches any run of characters and \<open>?\<close> any one character;
  bracket classes and backslash escapes are not modelled.
\<close>

fun glob_match :: "string \<Rightarrow> string \<Rightarrow> bool" where
  "glob_match [] s = (s = [])"
| "glob_match (p # ps) [] = (p = CHR ''*'' \<and> glob_match ps [])"
| "glob_match (p # ps) (c # cs) =
     (if p = CHR ''*'' then glob_match ps (c # cs) \<or> glob_match (p # ps) cs
      else (p = CHR ''?'' \<or> p = c) \<and> glob_match ps cs)"

definition redis_keys :: "string \<Rightarrow> (string list, redis) call" where
  "redis_keys pattern =
     andthen redis_request (\<lambda>_ r. (Inr (filter (glob_match pattern) (map fst (kv r))), r))"

definition redis_delete :: "string list \<Rightarrow> (nat, redis) call" where
  "redis_delete keys =
     andthen redis_request
       (\<lambda>_ r. (Inr (length (filter (\<lambda>(k, _). k \<in> set keys) (kv r))),
               r\<lparr>kv := filter (\<lambda>(k, _). k \<notin> set keys) (kv r)\<rparr>))"

text \<open>
  \<^verbatim>\<open>INCRBY\<close> counts from 0 when the key is absent (the new key has no expiry), keeps the
  time to live of a key it finds, and fails on a value that is not an integer or on a
  result outside the signed 64-bit range.
\<close>

definition redis_incrby :: "string \<Rightarrow> int \<Rightarrow> (int, redis) call" where
  "redis_incrby key n =
     andthen redis_request
       (\<lambda>_ r. case map_of (kv r) key of
                 None \<Rightarrow>
                   if - (2 ^ 63) \<le> n \<and> n < 2 ^ 63
                   then (Inr n, r\<lparr>kv := AList.update key (RInt n, None) (kv r)\<rparr>)
                   else (Inl CacheError, r)
               | Some (RInt i, t) \<Rightarrow>
                   if - (2 ^ 63) \<le> i + n \<and> i + n < 2 ^ 63
                   then (Inr (i + n), r\<lparr>kv := AList.update key (RInt (i + n), t) (kv r)\<rparr>)
                   else (Inl CacheError, r)
               | Some (_, t) \<Rightarrow> (Inl CacheError, r))"

definition redis_expire :: "string \<Rightarrow> nat \<Rightarrow> (bool, redis) call" where
  "redis_expire key ttl =
     andthen redis_request
       (\<lambda>_ r. case map_of (kv r) key of
                 None \<Rightarrow> (Inr False, r)
               | Some (v, _) \<Rightarrow> (Inr True, r\<lparr>kv := AList.update key (v, Some ttl) (kv r)\<rparr>))"

section \<open>\<^verbatim>\<open>CacheService\<close> (\<^verbatim>\<open>app/core/cache.py\<close>)\<close>

text \<open>
  \<^verbatim>\<open>get_redis_client\<close> builds the client on first use; \<^verbatim>\<open>int(os.getenv(...))\<close> raises
  when \<^verbatim>\<open>REDIS_PORT\<close> or \<^verbatim>\<open>REDIS_DB\<close> is not a number (\<open>env_ok\<close> is false).  The methods of
  the cache service are prefixed \<open>cache_\<close> where the note service has a method of the
  same name.
\<close>

definition logger_error :: "exn \<Rightarrow> (unit, redis) call" where
  "logger_error e r = (Inr (), r\<lparr>cache_log := e # cache_log r\<rparr>)"

text \<open>\<^verbatim>\<open>except Exception as e: logger.error(...); return value\<close>\<close>

definition log_and_return :: "'a \<Rightarrow> exn \<Rightarrow> ('a, redis) call" where
  "log_and_return a e = andthen (logger_error e) (\<lambda>_. ret a)"

definition get_redis_client :: "(unit, redis) call" where
  "get_redis_client r =
     (if \<not> redis_client r
      then (if env_ok r then (Inr (), r\<lparr>redis_client := True\<rparr>) else (Inl ValueError, r))
      else (Inr (), r))"

text \<open>\<^verbatim>\<open>ttl or self.cache_ttl\<close>\<close>

definition ttl_or :: "nat option \<Rightarrow> nat" where
  "ttl_or ttl = (case ttl of None \<Rightarrow> cache_ttl | Some t \<Rightarrow> if t = 0 then cache_ttl else t)"

text \<open>
  \<^verbatim>\<open>if cached_data:\<close> tests a string that is never empty, so a key that is present is
  always decoded.
\<close>

definition cache_get_notes :: "string \<Rightarrow> bool \<Rightarrow> int \<Rightarrow> int \<Rightarrow> (rvalue option, redis) call" where
  "cache_get_notes uid include_deleted limit offset =
     try_except
       (andthen get_redis_client (\<lambda>_.
        andthen (redis_get (get_notes_cache_key uid include_deleted limit offset)) (\<lambda>cached_data.
        case cached_data of
          Some v \<Rightarrow> ret (Some v)
        | None \<Rightarrow> ret None)))
       (log_and_return None)"

definition cache_set_notes ::
  "string \<Rightarrow> note list \<Rightarrow> bool \<Rightarrow> int \<Rightarrow> int \<Rightarrow> nat option \<Rightarrow> (bool, redis) call" where
  "cache_set_notes uid notes include_deleted limit offset ttl =
     try_except
       (andthen get_redis_client (\<lambda>_.
        andthen (redis_setex (get_notes_cache_key uid include_deleted limit offset)
                   (ttl_or ttl) (RNotes notes)) (\<lambda>_.
        ret True)))
       (log_and_return False)"

definition cache_get_note :: "string \<Rightarrow> string \<Rightarrow> (rvalue option, redis) call" where
  "cache_get_note nid uid =
     try_except
       (andthen get_redis_client (\<lambda>_.
        andthen (redis_get (get_note_cache_key nid uid)) (\<lambda>cached_data.
        case cached_data of
          Some v \<Rightarrow> ret (Some v)
        | None \<Rightarrow> ret None)))
       (log_and_return None)"

definition cache_set_note :: "note \<Rightarrow> nat option \<Rightarrow> (bool, redis) call" where
  "cache_set_note n ttl =
     try_except
       (andthen get_redis_client (\<lambda>_.
        andthen (redis_setex (get_note_cache_key (note_id n) (user_id n)) (ttl_or ttl) (RNote n)) (\<lambda>_.
        ret True)))
       (log_and_return False)"

definition invalidate_user_notes :: "string \<Rightarrow> (bool, redis) call" where
  "invalidate_user_notes uid =
     try_except
       (andthen get_redis_client (\<lambda>_.
        andthen (redis_keys (''notes:user:'' @ uid @ '':*'')) (\<lambda>keys.
        andthen (if keys \<noteq> [] then andthen (redis_delete keys) (\<lambda>_. ret ()) else ret ()) (\<lambda>_.
        andthen (redis_keys (''notes_count:user:'' @ uid @ '':*'')) (\<lambda>count_keys.
        andthen (if count_keys \<noteq> [] then andthen (redis_delete count_keys) (\<lambda>_. ret ())
                 else ret ()) (\<lambda>_.
        ret True))))))
       (log_and_return False)"

definition invalidate_note :: "string \<Rightarrow> string \<Rightarrow> (bool, redis) call" where
  "invalidate_note nid uid =
     try_except
       (andthen get_redis_client (\<lambda>_.
        andthen (redis_delete [get_note_cache_key nid uid]) (\<lambda>_.
        andthen (invalidate_user_notes uid) (\<lambda>_.
        ret True))))
       (log_and_return False)"

text \<open>\<^verbatim>\<open>int(cached_count)\<close> raises on a text that is not a number.\<close>

definition cache_get_notes_count :: "string \<Rightarrow> bool \<Rightarrow> (int option, redis) call" where
  "cache_get_notes_count uid include_deleted =
     try_except
       (andthen get_redis_client (\<lambda>_.
        andthen (redis_get (get_user_notes_count_key uid include_deleted)) (\<lambda>cached_count.
        case cached_count of
          Some (RInt i) \<Rightarrow> ret (Some i)
        | Some _ \<Rightarrow> raise ValueError
        | None \<Rightarrow> ret None)))
       (log_and_return None)"

definition cache_set_notes_count :: "string \<Rightarrow> int \<Rightarrow> bool \<Rightarrow> nat option \<Rightarrow> (bool, redis) call" where
  "cache_set_notes_count uid count include_deleted ttl =
     try_except
       (andthen get_redis_client (\<lambda>_.
        andthen (redis_setex (get_user_notes_count_key uid include_deleted) (ttl_or ttl) (RInt count)) (\<lambda>_.
        ret True)))
       (log_and_return False)"

definition increment_notes_count :: "string \<Rightarrow> bool \<Rightarrow> int \<Rightarrow> (bool, redis) call" where
  "increment_notes_count uid include_deleted increment =
     try_except
       (andthen get_redis_client (\<lambda>_.
        andthen (redis_incrby (get_user_notes_count_key uid include_deleted) increment) (\<lambda>_.
        andthen (redis_expire (get_user_notes_count_key uid include_deleted) cache_ttl) (\<lambda>_.
        ret True))))
       (log_and_return False)"

section \<open>\<^verbatim>\<open>OptimizedNoteService\<close> (\<^verbatim>\<open>app/services/note_service_optimized.py\<close>)\<close>

text \<open>
  The two process-wide singletons \<^verbatim>\<open>firestore_service\<close> and \<^verbatim>\<open>cache_service\<close>.  The
  service's own log lines are not kept.
\<close>

record world =
  store :: firestore
  cache :: redis

definition on_store :: "('a, firestore) call \<Rightarrow> ('a, world) call" where
  "on_store m w = (case m (store w) of (r, fs) \<Rightarrow> (r, w\<lparr>store := fs\<rparr>))"

definition on_cache :: "('a, redis) call \<Rightarrow> ('a, world) call" where
  "on_cache m w = (case m (cache w) of (r, c) \<Rightarrow> (r, w\<lparr>cache := c\<rparr>))"

text \<open>Python's truth tests: \<^verbatim>\<open>if cached:\<close> on a decoded JSON value, \<^verbatim>\<open>if not d:\<close> on a dict.\<close>

definition truthy :: "rvalue \<Rightarrow> bool" where
  "truthy v = (case v of RNote _ \<Rightarrow> True | RNotes ns \<Rightarrow> ns \<noteq> [] | RInt i \<Rightarrow> i \<noteq> 0)"

definition if_truthy :: "rvalue option \<Rightarrow> rvalue option" where
  "if_truthy cached = (case cached of None \<Rightarrow> None | Some v \<Rightarrow> if truthy v then Some v else None)"

definition absent :: "doc option \<Rightarrow> bool" where
  "absent d = (case d of None \<Rightarrow> True | Some dict \<Rightarrow> dict = [])"

text \<open>\<^verbatim>\<open>Note(**cached_note)\<close> and \<^verbatim>\<open>[Note(**note_data) for note_data in cached_notes]\<close>\<close>

definition decode_note :: "rvalue \<Rightarrow> exn + note" where
  "decode_note v =
     (case v of
        RNote n \<Rightarrow> if valid_note n then Inr n else Inl ValidationError
      | _ \<Rightarrow> Inl TypeError)"

definition decode_notes :: "rvalue \<Rightarrow> exn + note list" where
  "decode_notes v =
     (case v of
        RNotes ns \<Rightarrow> if list_all valid_note ns then Inr ns else Inl ValidationError
      | _ \<Rightarrow> Inl TypeError)"

fun notes_of_dicts :: "string \<Rightarrow> doc list \<Rightarrow> exn + note list" where
  "notes_of_dicts uid [] = Inr []"
| "notes_of_dicts uid (d # ds) =
     first (note_of_dict uid d) (\<lambda>n. first (notes_of_dicts uid ds) (\<lambda>ns. Inr (n # ns)))"

text \<open>
  \<^verbatim>\<open>note_data_list.sort(key=lambda x: x.get("updated_at", datetime.min), reverse=True)\<close>:
  a stable sort, descending, records with equal keys keeping their order.  Comparing a
  datetime with a value of another type raises; here any \<^verbatim>\<open>updated_at\<close> that is not a
  datetime does.
\<close>

definition updated_at_key :: "doc \<Rightarrow> nat" where
  "updated_at_key d = (case map_of d ''updated_at'' of Some (FTime t) \<Rightarrow> t | _ \<Rightarrow> datetime_min)"

definition comparable :: "doc \<Rightarrow> bool" where
  "comparable d = (case map_of d ''updated_at'' of None \<Rightarrow> True | Some (FTime t) \<Rightarrow> True | Some _ \<Rightarrow> False)"

definition sort_updated_at_desc :: "doc list \<Rightarrow> exn + doc list" where
  "sort_updated_at_desc ds =
     (if list_all comparable ds then Inr (rev (sort_key updated_at_key (rev ds)))
      else Inl TypeError)"

text \<open>\<^verbatim>\<open>xs[:limit]\<close>; a negative limit counts from the end.\<close>

definition slice_to :: "int \<Rightarrow> 'a list \<Rightarrow> 'a list" where
  "slice_to l xs = (if 0 \<le> l then take (nat l) xs else take (nat (int (length xs) + l)) xs)"

definition deleted_filter :: "bool \<Rightarrow> (string \<times> fval) list" where
  "deleted_filter include_deleted = (if \<not> include_deleted then [(''is_deleted'', FBool False)] else [])"

text \<open>
  The clock is an input: \<open>ms\<close> is \<^verbatim>\<open>int(datetime.utcnow().timestamp() * 1000)\<close> and \<open>now\<close>
  is \<^verbatim>\<open>datetime.utcnow()\<close>.
\<close>

definition note_data_dict :: "note_base \<Rightarrow> nat \<Rightarrow> doc" where
  "note_data_dict note_data now =
     [(''title'', FStr (title note_data)),
      (''content'', FStr (content note_data)),
      (''is_deleted'', FBool False),
      (''is_pinned'', FBool (is_pinned note_data)),
      (''format'', FStr (format note_data)),
      (''color'', FStr (color note_data)),
      (''created_at'', FTime now),
      (''updated_at'', FTime now)]"

definition create_note :: "note_base \<Rightarrow> string \<Rightarrow> nat \<Rightarrow> nat \<Rightarrow> (note, world) call" where
  "create_note note_data uid ms now =
     try_except
       (andthen (on_store (create_subcollection_document uid (str_int (int ms))
                   (note_data_dict note_data now))) (\<lambda>created_note.
        andthen (lift (note_of_dict uid created_note)) (\<lambda>n.
        andthen (on_cache (cache_set_note n None)) (\<lambda>_.
        andthen (on_cache (invalidate_user_notes uid)) (\<lambda>_.
        andthen (on_cache (increment_notes_count uid False 1)) (\<lambda>_.
        ret n))))))
       (\<lambda>e. raise (HTTPException 500))"

definition get_note :: "string \<Rightarrow> string \<Rightarrow> (note option, world) call" where
  "get_note nid uid =
     try_except
       (andthen (on_cache (cache_get_note nid uid)) (\<lambda>cached_note.
        case if_truthy cached_note of
          Some v \<Rightarrow> andthen (lift (decode_note v)) (\<lambda>n. ret (Some n))
        | None \<Rightarrow>
            andthen (on_store (get_subcollection_document uid nid)) (\<lambda>note_data.
            case (if absent note_data then None else note_data) of
              None \<Rightarrow> ret None
            | Some d \<Rightarrow>
                andthen (lift (note_of_dict uid d)) (\<lambda>n.
                andthen (on_cache (cache_set_note n None)) (\<lambda>_.
                ret (Some n))))))
       (\<lambda>e. raise (HTTPException 500))"

definition get_notes :: "string \<Rightarrow> bool \<Rightarrow> int \<Rightarrow> int \<Rightarrow> (note list, world) call" where
  "get_notes uid include_deleted limit offset =
     try_except
       (andthen (on_cache (cache_get_notes uid include_deleted limit offset)) (\<lambda>cached_notes.
        case if_truthy cached_notes of
          Some v \<Rightarrow> lift (decode_notes v)
        | None \<Rightarrow>
            andthen (on_store (query_subcollection uid (deleted_filter include_deleted)
                       (Some (limit + offset)))) (\<lambda>note_data_list.
            andthen (lift (sort_updated_at_desc note_data_list)) (\<lambda>sorted.
            andthen (lift (notes_of_dicts uid
                       (slice_to limit (if offset > 0 then drop (nat offset) sorted else sorted)))) (\<lambda>notes.
            andthen (on_cache (cache_set_notes uid notes include_deleted limit offset None)) (\<lambda>_.
            ret notes))))))
       (\<lambda>e. raise (HTTPException 500))"

definition get_notes_count :: "string \<Rightarrow> bool \<Rightarrow> (int, world) call" where
  "get_notes_count uid include_deleted =
     try_except
       (andthen (on_cache (cache_get_notes_count uid include_deleted)) (\<lambda>cached_count.
        case cached_count of
          Some c \<Rightarrow> ret c
        | None \<Rightarrow>
            andthen (on_store (query_subcollection uid (deleted_filter include_deleted) None))
              (\<lambda>note_data_list.
            andthen (on_cache (cache_set_notes_count uid (int (length note_data_list))
                       include_deleted None)) (\<lambda>_.
            ret (int (length note_data_list))))))
       (\<lambda>e. ret 0)"

definition field_if_set :: "string \<Rightarrow> 'a option \<Rightarrow> ('a \<Rightarrow> fval) \<Rightarrow> doc" where
  "field_if_set k v wrap = (case v of None \<Rightarrow> [] | Some x \<Rightarrow> [(k, wrap x)])"

definition update_data :: "note_update \<Rightarrow> nat \<Rightarrow> doc" where
  "update_data note_data now =
     [(''updated_at'', FTime now)]
       @ field_if_set ''title'' (upd_title note_data) FStr
       @ field_if_set ''content'' (upd_content note_data) FStr
       @ field_if_set ''is_deleted'' (upd_is_deleted note_data) FBool
       @ field_if_set ''is_pinned'' (upd_is_pinned note_data) FBool
       @ field_if_set ''format'' (upd_format note_data) FStr
       @ field_if_set ''color'' (upd_color note_data) FStr"

definition update_note :: "string \<Rightarrow> note_update \<Rightarrow> string \<Rightarrow> nat \<Rightarrow> (note option, world) call" where
  "update_note nid note_data uid now =
     try_except
       (andthen (on_store (get_subcollection_document uid nid)) (\<lambda>existing_note.
        if absent existing_note then ret None
        else
          andthen (on_store (update_subcollection_document uid nid (update_data note_data now)))
            (\<lambda>updated_note_data.
          case (if absent updated_note_data then None else updated_note_data) of
            None \<Rightarrow> ret None
          | Some d \<Rightarrow>
              andthen (lift (note_of_dict uid d)) (\<lambda>n.
              andthen (on_cache (cache_set_note n None)) (\<lambda>_.
              andthen (on_cache (invalidate_user_notes uid)) (\<lambda>_.
              ret (Some n)))))))
       (\<lambda>e. raise (HTTPException 500))"

definition delete_note :: "string \<Rightarrow> string \<Rightarrow> nat \<Rightarrow> (bool, world) call" where
  "delete_note nid uid now =
     try_except
       (andthen (on_store (get_subcollection_document uid nid)) (\<lambda>existing_note.
        if absent existing_note then ret False
        else
          andthen (on_store (update_subcollection_document uid nid
                     [(''is_deleted'', FBool True), (''updated_at'', FTime now)])) (\<lambda>success.
          if \<not> absent success
          then
            andthen (on_cache (invalidate_note nid uid)) (\<lambda>_.
            andthen (on_cache (invalidate_user_notes uid)) (\<lambda>_.
            andthen (on_cache (increment_notes_count uid False (- 1))) (\<lambda>_.
            andthen (on_cache (increment_notes_count uid True 1)) (\<lambda>_.
            ret True))))
          else ret False)))
       (\<lambda>e. raise (HTTPException 500))"

section \<open>Specification predicates and example states\<close>

text \<open>
  A cache method degrades to \<open>dflt\<close> when it never raises and, whenever it logged an error
  during the call, its value is \<open>dflt\<close>.  A call is silent for a log \<open>lg\<close> when it leaves
  the log as it was unless it raises.
\<close>

definition degrades_to :: "'a \<Rightarrow> ('a, redis) call \<Rightarrow> redis \<Rightarrow> bool" where
  "degrades_to dflt m r =
     (case m r of
        (Inl e, r') \<Rightarrow> False
      | (Inr v, r') \<Rightarrow> (cache_log r' \<noteq> cache_log r \<longrightarrow> v = dflt))"

definition never_raises :: "('a, redis) call \<Rightarrow> redis \<Rightarrow> bool" where
  "never_raises m r = (case m r of (Inl e, r') \<Rightarrow> False | (Inr v, r') \<Rightarrow> True)"

definition silent :: "('s \<Rightarrow> exn list) \<Rightarrow> ('a, 's) call \<Rightarrow> bool" where
  "silent lg m = (\<forall>s v s'. m s = (Inr v, s') \<longrightarrow> lg s' = lg s)"

text \<open>A backend that fails its next request, and one that answers once and fails then.\<close>

definition failing_redis :: redis where
  "failing_redis =
     \<lparr>redis_client = True, env_ok = True, kv = [], cache_faults = [True], cache_log = []\<rparr>"

definition flaky_redis :: redis where
  "flaky_redis =
     \<lparr>redis_client = True, env_ok = True, kv = [], cache_faults = [False, True], cache_log = []\<rparr>"

text \<open>
  The errors the store adapter logged.  A service method surfaces a store failure when,
  whenever the adapter logged an error during the call, the call ends in
  \<^verbatim>\<open>HTTPException(500)\<close>; it swallows it into \<open>dflt\<close> when the call returns \<open>dflt\<close> then.
\<close>

definition store_errors :: "world \<Rightarrow> exn list" where
  "store_errors w = store_log (store w)"

definition surfaces :: "('a, world) call \<Rightarrow> world \<Rightarrow> bool" where
  "surfaces m w =
     (case m w of
        (res, w') \<Rightarrow> (store_errors w' \<noteq> store_errors w \<longrightarrow> res = Inl (HTTPException 500)))"

definition swallows :: "'a \<Rightarrow> ('a, world) call \<Rightarrow> world \<Rightarrow> bool" where
  "swallows dflt m w =
     (case m w of (res, w') \<Rightarrow> (store_errors w' \<noteq> store_errors w \<longrightarrow> res = Inr dflt))"

definition keeps_log :: "('a, firestore) call \<Rightarrow> bool" where
  "keeps_log m = (\<forall>s r s'. m s = (r, s') \<longrightarrow> length (store_log s) \<le> length (store_log s'))"

text \<open>
  An empty store behind an empty cache that answers, and the same with a Firestore client
  that failed to initialise (\<^verbatim>\<open>db = None\<close>).
\<close>

definition healthy_redis :: redis where
  "healthy_redis =
     \<lparr>redis_client = False, env_ok = True, kv = [], cache_faults = [], cache_log = []\<rparr>"

definition empty_world :: world where
  "empty_world =
     \<lparr>store = \<lparr>db = True, users = [], store_faults = [], store_log = []\<rparr>,
      cache = healthy_redis\<rparr>"

definition store_down :: world where
  "store_down =
     \<lparr>store = \<lparr>db = False, users = [], store_faults = [], store_log = []\<rparr>,
      cache = healthy_redis\<rparr>"

text \<open>
  A store that answers: the client is initialised and no failure is scheduled.
  \<open>after_request\<close> is the store once it has answered one request; \<open>stored\<close> is the
  document of a note in its owner's sub-collection.
\<close>

definition store_answers :: "firestore \<Rightarrow> bool" where
  "store_answers fs = (db fs \<and> True \<notin> set (store_faults fs))"

definition after_request :: "firestore \<Rightarrow> firestore" where
  "after_request fs = fs\<lparr>store_faults := tl (store_faults fs)\<rparr>"

definition stored :: "world \<Rightarrow> string \<Rightarrow> string \<Rightarrow> doc option" where
  "stored w uid nid = map_of (notes_of (store w) uid) nid"

definition store_frame :: "('a, world) call \<Rightarrow> bool" where
  "store_frame m = (\<forall>w r w'. m w = (r, w') \<longrightarrow> store w' = store w)"

text \<open>
  The fields an update is to write, in the words of the specification: the fields
  explicitly provided in the input, plus a refreshed \<^verbatim>\<open>updated_at\<close>.
\<close>

definition fields_to_write :: "note_update \<Rightarrow> nat \<Rightarrow> string \<Rightarrow> fval option" where
  "fields_to_write nd now k =
     (if k = ''updated_at'' then Some (FTime now)
      else if k = ''title'' then map_option FStr (upd_title nd)
      else if k = ''content'' then map_option FStr (upd_content nd)
      else if k = ''is_deleted'' then map_option FBool (upd_is_deleted nd)
      else if k = ''is_pinned'' then map_option FBool (upd_is_pinned nd)
      else if k = ''format'' then map_option FStr (upd_format nd)
      else if k = ''color'' then map_option FStr (upd_color nd)
      else None)"

text \<open>A note, the world after its owner \<open>u\<close> created it in the empty world, and an update.\<close>

definition sample_note :: note_base where
  "sample_note = \<lparr>title = ''t'', content = ''c'', is_deleted = False, is_pinned = False,
                   format = ''text'', color = ''primary''\<rparr>"

definition one_note_world :: world where
  "one_note_world = snd (create_note sample_note ''u'' 1 1 empty_world)"

definition retitle :: note_update where
  "retitle = \<lparr>upd_title = Some ''new'', upd_content = None, upd_is_deleted = None,
               upd_is_pinned = None, upd_format = None, upd_color = None\<rparr>"

text \<open>
  What a call does to a part \<open>proj\<close> of the state: \<open>step proj R m\<close> says that the part
  before and after any run of \<open>m\<close> are related by \<open>R\<close>, whether the run raises or not.
  \<open>docs\<close> are the sub-collections of the store.  \<open>wrote\<close>: nothing changed, or the fields
  \<open>data\<close> were written into the existing document \<open>(uid, nid)\<close>.  \<open>made\<close>: nothing changed,
  or the document \<open>(uid, nid)\<close> was set to \<open>data\<close>.
\<close>

definition step :: "('s \<Rightarrow> 'u) \<Rightarrow> ('u \<Rightarrow> 'u \<Rightarrow> bool) \<Rightarrow> ('a, 's) call \<Rightarrow> bool" where
  "step proj R m = (\<forall>s r s'. m s = (r, s') \<longrightarrow> R (proj s) (proj s'))"

definition docs :: "world \<Rightarrow> (string \<times> (string \<times> doc) list) list" where
  "docs w = users (store w)"

definition wrote :: "string \<Rightarrow> string \<Rightarrow> doc \<Rightarrow> (string \<times> (string \<times> doc) list) list
    \<Rightarrow> (string \<times> (string \<times> doc) list) list \<Rightarrow> bool" where
  "wrote uid nid data us us' =
     (us' = us \<or>
      (case map_of (case map_of us uid of None \<Rightarrow> [] | Some ns \<Rightarrow> ns) nid of
         None \<Rightarrow> False
       | Some old \<Rightarrow>
           us' = AList.update uid
                   (AList.update nid (AList.merge old data)
                      (case map_of us uid of None \<Rightarrow> [] | Some ns \<Rightarrow> ns)) us))"

definition made :: "string \<Rightarrow> string \<Rightarrow> doc \<Rightarrow> (string \<times> (string \<times> doc) list) list
    \<Rightarrow> (string \<times> (string \<times> doc) list) list \<Rightarrow> bool" where
  "made uid nid data us us' =
     (us' = us \<or>
      us' = AList.update uid
              (AList.update nid data (case map_of us uid of None \<Rightarrow> [] | Some ns \<Rightarrow> ns)) us)"

text \<open>
  The six operations the routing layer can ask for, and a sequence of them run from a
  world.  A request revives the note \<open>(uid, nid)\<close> when it is an update of that note with
  \<^verbatim>\<open>is_deleted=False\<close>, or a create by the same owner whose generated identifier is \<open>nid\<close>.
\<close>

datatype request =
    CreateNote note_base string nat nat
  | GetNote string string
  | GetNotes string bool int int
  | GetNotesCount string bool
  | UpdateNote string note_update string nat
  | DeleteNote string string nat

fun perform :: "request \<Rightarrow> world \<Rightarrow> world" where
  "perform (CreateNote note_data uid ms now) w = snd (create_note note_data uid ms now w)"
| "perform (GetNote nid uid) w = snd (get_note nid uid w)"
| "perform (GetNotes uid include_deleted limit offset) w = snd (get_notes uid include_deleted limit offset w)"
| "perform (GetNotesCount uid include_deleted) w = snd (get_notes_count uid include_deleted w)"
| "perform (UpdateNote nid note_data uid now) w = snd (update_note nid note_data uid now w)"
| "perform (DeleteNote nid uid now) w = snd (delete_note nid uid now w)"

definition run :: "request list \<Rightarrow> world \<Rightarrow> world" where
  "run rs w = fold perform rs w"

definition soft_deleted :: "world \<Rightarrow> string \<Rightarrow> string \<Rightarrow> bool" where
  "soft_deleted w uid nid =
     (case stored w uid nid of
        None \<Rightarrow> False
      | Some d \<Rightarrow> map_of d ''is_deleted'' = Some (FBool True))"

fun revives :: "string \<Rightarrow> string \<Rightarrow> request \<Rightarrow> bool" where
  "revives uid nid (UpdateNote n note_data u now) =
     (u = uid \<and> n = nid \<and> upd_is_deleted note_data = Some False)"
| "revives uid nid (CreateNote note_data u ms now) = (u = uid \<and> str_int (int ms) = nid)"
| "revives uid nid r = False"

definition undelete :: note_update where
  "undelete = \<lparr>upd_title = None, upd_content = None, upd_is_deleted = Some False,
               upd_is_pinned = None, upd_format = None, upd_color = None\<rparr>"

definition deleted_world :: world where
  "deleted_world = run [DeleteNote ''1'' ''u'' 2] one_note_world"

definition harmless :: "request list" where
  "harmless = [UpdateNote ''1'' retitle ''u'' 5, DeleteNote ''1'' ''u'' 6, GetNote ''1'' ''u'',
               CreateNote sample_note ''u'' 7 7, GetNotes ''u'' True 10 0, GetNotesCount ''u'' False]"

text \<open>A call yields \<open>P\<close> when it never raises and its value satisfies \<open>P\<close>.\<close>

definition yields :: "('a \<Rightarrow> bool) \<Rightarrow> ('a, 's) call \<Rightarrow> bool" where
  "yields P m = (\<forall>s. \<exists>v s'. m s = (Inr v, s') \<and> P v)"

text \<open>
  The document and the note of \<open>deleted_world\<close>.  In \<open>stale_world\<close> the note was deleted
  while the cache backend failed four requests in a row, so the cache still holds the
  note as it was before.
\<close>

definition deleted_doc :: doc where
  "deleted_doc =
     [(''title'', FStr ''t''), (''content'', FStr ''c''), (''is_deleted'', FBool True),
      (''is_pinned'', FBool False), (''format'', FStr ''text''), (''color'', FStr ''primary''),
      (''created_at'', FTime 1), (''updated_at'', FTime 2)]"

definition deleted_note :: "note" where
  "deleted_note =
     \<lparr>title = ''t'', content = ''c'', is_deleted = True, is_pinned = False, format = ''text'',
      color = ''primary'', note_id = ''1'', user_id = ''u'', created_at = 1, updated_at = 2\<rparr>"

definition cached_note :: "note" where
  "cached_note = deleted_note\<lparr>is_deleted := False, updated_at := 1\<rparr>"

definition stale_world :: world where
  "stale_world =
     snd (delete_note ''1'' ''u'' 2
       (one_note_world\<lparr>cache := (cache one_note_world)\<lparr>cache_faults := [True, True, True, True]\<rparr>\<rparr>))"


text \<open>
  The time to live of a cache entry running out, as a step of the environment.
  \<open>two_notes_world\<close> is the empty world after its owner \<open>u\<close> created two notes.
\<close>

definition expire_key :: "string \<Rightarrow> world \<Rightarrow> world" where
  "expire_key key w = w\<lparr>cache := (cache w)\<lparr>kv := AList.delete key (kv (cache w))\<rparr>\<rparr>"

definition two_notes_world :: world where
  "two_notes_world =
     run [CreateNote sample_note ''u'' 1 1, CreateNote sample_note ''u'' 2 2] empty_world"

text \<open>
  The page of a listing, in the words of the specification: the stored notes that match,
  ordered by \<^verbatim>\<open>updated_at\<close> descending, ranks \<open>offset + 1\<close> to \<open>offset + limit\<close>.
\<close>

definition ranked_page :: "world \<Rightarrow> string \<Rightarrow> bool \<Rightarrow> nat \<Rightarrow> nat \<Rightarrow> doc list" where
  "ranked_page w uid include_deleted limit offset =
     take limit (drop offset
       (rev (sort_key updated_at_key
          (filter (\<lambda>d. include_deleted \<or> map_of d ''is_deleted'' = Some (FBool False))
             (map snd (notes_of (store w) uid))))))"

text \<open>
  The store that holds the 25 notes owner \<open>u\<close> created at the times 1 to 25, behind a
  cache with no entries.  Their identifiers are \<open>10\<close> to \<open>34\<close>: of equal length, as
  millisecond timestamps are, so that the order of the identifiers as numbers and as
  strings is the same, and is the order in which the store streams the documents.
\<close>

definition notes25 :: world where
  "notes25 =
     \<lparr>store = \<lparr>db = True,
               users = [(''u'', map (\<lambda>i. (str_int (int (9 + i)), note_data_dict sample_note i))
                                [1..<26])],
               store_faults = [], store_log = []\<rparr>,
      cache = healthy_redis\<rparr>"

section \<open>Properties of the key functions\<close>

lemma digit_inj: "a < 10 \<Longrightarrow> b < 10 \<Longrightarrow> digit a = digit b \<Longrightarrow> a = b"
proof -
  assume "a < 10" "b < 10" "digit a = digit b"
  moreover have "a < 10 \<Longrightarrow> a \<in> {0,1,2,3,4,5,6,7,8,9}" by auto
  moreover have "b < 10 \<Longrightarrow> b \<in> {0,1,2,3,4,5,6,7,8,9}" by auto
  ultimately show ?thesis
    by (auto simp: digit_def)
qed

lemma digit_not_sep: "d < 10 \<Longrightarrow> digit d \<noteq> CHR '':'' \<and> digit d \<noteq> CHR ''-''"
proof -
  assume "d < 10"
  then have "d \<in> {0,1,2,3,4,5,6,7,8,9}" by auto
  then show ?thesis by (auto simp: digit_def)
qed

lemma str_nat_nonempty: "str_nat n \<noteq> []"
  by (subst str_nat.simps) simp

lemma str_nat_chars: "c \<in> set (str_nat n) \<Longrightarrow> c \<noteq> CHR '':'' \<and> c \<noteq> CHR ''-''"
proof (induction n rule: str_nat.induct)
  case (1 n)
  show ?case
  proof (cases "n < 10")
    case True
    with "1.prems" show ?thesis
      by (subst (asm) str_nat.simps) (simp add: digit_not_sep)
  next
    case False
    with "1.prems" have "c \<in> set (str_nat (n div 10)) \<or> c = digit (n mod 10)"
      by (subst (asm) str_nat.simps) auto
    then show ?thesis
    proof
      assume "c \<in> set (str_nat (n div 10))"
      with "1.IH" False show ?thesis by simp
    next
      assume "c = digit (n mod 10)"
      then show ?thesis by (simp add: digit_not_sep)
    qed
  qed
qed

lemma str_nat_inj: "str_nat n = str_nat m \<Longrightarrow> n = m"
proof (induction n arbitrary: m rule: str_nat.induct)
  case (1 n)
  show ?case
  proof (cases "n < 10")
    case n_small: True
    show ?thesis
    proof (cases "m < 10")
      case True
      with n_small "1.prems" have "digit n = digit m"
        by (simp add: str_nat.simps [of n] str_nat.simps [of m])
      with n_small True show ?thesis by (rule digit_inj)
    next
      case False
      with n_small "1.prems" have "[digit n] = str_nat (m div 10) @ [digit (m mod 10)]"
        by (simp add: str_nat.simps [of n] str_nat.simps [of m])
      then have "str_nat (m div 10) = []" by simp
      then show ?thesis by (simp add: str_nat_nonempty)
    qed
  next
    case n_big: False
    show ?thesis
    proof (cases "m < 10")
      case True
      with n_big "1.prems" have "str_nat (n div 10) @ [digit (n mod 10)] = [digit m]"
        by (simp add: str_nat.simps [of n] str_nat.simps [of m])
      then have "str_nat (n div 10) = []" by simp
      then show ?thesis by (simp add: str_nat_nonempty)
    next
      case False
      with n_big "1.prems"
      have "str_nat (n div 10) @ [digit (n mod 10)] = str_nat (m div 10) @ [digit (m mod 10)]"
        by (simp add: str_nat.simps [of n] str_nat.simps [of m])
      then have hi: "str_nat (n div 10) = str_nat (m div 10)"
        and lo: "digit (n mod 10) = digit (m mod 10)" by simp_all
      from "1.IH" [OF n_big hi] have "n div 10 = m div 10" .
      moreover from lo have "n mod 10 = m mod 10" by (intro digit_inj) simp_all
      ultimately show ?thesis by (metis div_mult_mod_eq)
    qed
  qed
qed

lemma str_int_chars: "CHR '':'' \<notin> set (str_int i)"
  using str_nat_chars by (auto simp: str_int_def)

lemma str_int_inj: "str_int i = str_int j \<Longrightarrow> i = j"
proof -
  assume eq: "str_int i = str_int j"
  have no_minus: "hd (str_nat n) \<noteq> CHR ''-''" for n
    using str_nat_chars [of "hd (str_nat n)" n] str_nat_nonempty [of n] by auto
  have neg_pos: "CHR ''-'' # str_nat a \<noteq> str_nat b" for a b
    using no_minus [of b] by (metis list.sel(1))
  show ?thesis
  proof (cases "i < 0")
    case i_neg: True
    show ?thesis
    proof (cases "j < 0")
      case True
      with i_neg eq have "nat (- i) = nat (- j)"
        by (auto simp: str_int_def dest: str_nat_inj)
      with i_neg True show ?thesis by simp
    next
      case False
      with i_neg eq neg_pos show ?thesis by (simp add: str_int_def)
    qed
  next
    case i_pos: False
    show ?thesis
    proof (cases "j < 0")
      case True
      with i_pos eq neg_pos [of "nat (- j)" "nat i"] show ?thesis
        by (simp add: str_int_def)
    next
      case False
      with i_pos eq have "nat i = nat j"
        by (auto simp: str_int_def dest: str_nat_inj)
      with i_pos False show ?thesis by simp
    qed
  qed
qed

lemma str_bool_chars: "CHR '':'' \<notin> set (str_bool b)"
  by (simp add: str_bool_def)

lemma str_bool_inj: "str_bool a = str_bool b \<Longrightarrow> a = b"
  by (auto simp: str_bool_def split: if_splits)

text \<open>
  A key is read back from its right end: the text after the last colon is a field that
  holds no colon itself.
\<close>

lemma last_field:
  assumes "xs @ CHR '':'' # s = ys @ CHR '':'' # t"
    and "CHR '':'' \<notin> set s" and "CHR '':'' \<notin> set t"
  shows "xs = ys \<and> s = t"
  using assms
proof (induction s arbitrary: t rule: rev_induct)
  case Nil
  then show ?case by (cases t rule: rev_cases) auto
next
  case (snoc a s)
  show ?case
  proof (cases t rule: rev_cases)
    case Nil
    with snoc.prems show ?thesis by auto
  next
    case (snoc t' b)
    with snoc.prems have "xs @ CHR '':'' # s = ys @ CHR '':'' # t'" "a = b"
      by (simp_all flip: append_assoc append_Cons)
    with snoc.IH [of t'] snoc.prems snoc show ?thesis by simp
  qed
qed

lemma notes_cache_key_inj:
  assumes "get_notes_cache_key u d l off = get_notes_cache_key u' d' l' off'"
  shows "u = u' \<and> d = d' \<and> l = l' \<and> off = off'"
proof -
  let ?a = "\<lambda>u d l. ''notes:user:'' @ u @ '':deleted:'' @ str_bool d @ '':limit:'' @ str_int l @ '':offset''"
  from assms have "?a u d l @ CHR '':'' # str_int off = ?a u' d' l' @ CHR '':'' # str_int off'"
    by (simp add: get_notes_cache_key_def)
  then have a: "?a u d l = ?a u' d' l'" and off: "str_int off = str_int off'"
    using last_field [OF _ str_int_chars str_int_chars] by blast+
  let ?b = "\<lambda>u d. ''notes:user:'' @ u @ '':deleted:'' @ str_bool d @ '':limit''"
  from a have "?b u d @ CHR '':'' # str_int l = ?b u' d' @ CHR '':'' # str_int l'"
    by simp
  then have b: "?b u d = ?b u' d'" and l: "str_int l = str_int l'"
    using last_field [OF _ str_int_chars str_int_chars] by blast+
  let ?c = "\<lambda>u. ''notes:user:'' @ u @ '':deleted''"
  from b have "?c u @ CHR '':'' # str_bool d = ?c u' @ CHR '':'' # str_bool d'"
    by simp
  then have c: "?c u = ?c u'" and d: "str_bool d = str_bool d'"
    using last_field [OF _ str_bool_chars str_bool_chars] by blast+
  from c have "u = u'" by simp
  with d l off show ?thesis
    by (simp add: str_bool_inj str_int_inj)
qed

text \<open>
  C9.  The three key functions are functions of their parameters: equal parameters give
  equal keys (for the note key, the list key and the count key), and the list key is
  injective: two parameter tuples \<open>(user_id, include_deleted, limit, offset)\<close> that
  differ in any component give different keys.
\<close>

theorem cache_keys_deterministic_and_list_key_injective:
  "(n = n' \<and> u = u' \<longrightarrow> get_note_cache_key n u = get_note_cache_key n' u')
   \<and> (u = u' \<and> d = d' \<longrightarrow> get_user_notes_count_key u d = get_user_notes_count_key u' d')
   \<and> (u = u' \<and> d = d' \<and> l = l' \<and> off = off'
        \<longrightarrow> get_notes_cache_key u d l off = get_notes_cache_key u' d' l' off')
   \<and> ((u, d, l, off) \<noteq> (u', d', l', off')
        \<longrightarrow> get_notes_cache_key u d l off \<noteq> get_notes_cache_key u' d' l' off')"
  using notes_cache_key_inj [of u d l off u' d' l' off'] by auto

theorem cache_keys_witness:
  "get_note_cache_key ''17'' ''alice'' = ''note:17:user:alice''
   \<and> get_user_notes_count_key ''alice'' False = ''notes_count:user:alice:deleted:False''
   \<and> get_notes_cache_key ''alice'' False 10 20 = ''notes:user:alice:deleted:False:limit:10:offset:20''
   \<and> get_notes_cache_key ''alice'' False 10 20 \<noteq> get_notes_cache_key ''alice'' False 20 10"
proof -
  have "get_note_cache_key ''17'' ''alice'' = ''note:17:user:alice''"
    by code_simp
  moreover have "get_user_notes_count_key ''alice'' False = ''notes_count:user:alice:deleted:False''"
    by code_simp
  moreover have "get_notes_cache_key ''alice'' False 10 20
      = ''notes:user:alice:deleted:False:limit:10:offset:20''"
    by code_simp
  moreover have "get_notes_cache_key ''alice'' False 10 20 \<noteq> get_notes_cache_key ''alice'' False 20 10"
    using cache_keys_deterministic_and_list_key_injective
      [of "''17''" "''17''" "''alice''" "''alice''" False False 10 20 20 10]
    by simp
  ultimately show ?thesis by blast
qed

section \<open>The cache layer under backend failures\<close>

lemma silent_ret: "silent lg (ret a)"
  by (simp add: silent_def ret_def)

lemma silent_raise: "silent lg (raise e)"
  by (simp add: silent_def raise_def)

lemma silent_lift: "silent lg (lift x)"
  by (simp add: silent_def lift_def)

lemma silent_andthen: "silent lg m \<Longrightarrow> (\<And>a. silent lg (f a)) \<Longrightarrow> silent lg (andthen m f)"
  unfolding silent_def andthen_def
  by (auto split: prod.splits sum.splits)

lemma silent_if: "silent lg a \<Longrightarrow> silent lg b \<Longrightarrow> silent lg (if c then a else b)"
  by simp

lemma silent_case_option:
  "silent lg a \<Longrightarrow> (\<And>x. silent lg (b x)) \<Longrightarrow> silent lg (case v of None \<Rightarrow> a | Some x \<Rightarrow> b x)"
  by (simp split: option.splits)

lemma silent_request: "silent cache_log redis_request"
  by (auto simp: silent_def redis_request_def split: list.splits if_splits)

lemma silent_client: "silent cache_log get_redis_client"
  by (auto simp: silent_def get_redis_client_def split: if_splits)

lemma silent_get: "silent cache_log (redis_get k)"
  unfolding redis_get_def by (intro silent_andthen silent_request) (simp add: silent_def)

lemma silent_setex: "silent cache_log (redis_setex k t v)"
  unfolding redis_setex_def by (intro silent_andthen silent_request) (auto simp: silent_def)

lemma silent_keys: "silent cache_log (redis_keys p)"
  unfolding redis_keys_def by (intro silent_andthen silent_request) (auto simp: silent_def)

lemma silent_delete: "silent cache_log (redis_delete ks)"
  unfolding redis_delete_def by (intro silent_andthen silent_request) (auto simp: silent_def)

lemma silent_incrby: "silent cache_log (redis_incrby k n)"
  unfolding redis_incrby_def
  by (intro silent_andthen silent_request)
    (auto simp: silent_def split: option.splits rvalue.splits if_splits)

lemma silent_expire: "silent cache_log (redis_expire k t)"
  unfolding redis_expire_def
  by (intro silent_andthen silent_request) (auto simp: silent_def split: option.splits)

lemmas silent_intros = silent_andthen silent_client silent_get silent_setex silent_keys
  silent_delete silent_incrby silent_expire silent_ret silent_raise silent_if

text \<open>The shape of every method: a silent body under a handler that logs and returns.\<close>

lemma degrades_try:
  "silent cache_log body \<Longrightarrow> degrades_to dflt (try_except body (log_and_return dflt)) r"
  unfolding silent_def degrades_to_def try_except_def log_and_return_def andthen_def
    logger_error_def ret_def
  by (auto split: prod.splits sum.splits)

lemma try_except_returns:
  "\<exists>v r'. try_except body (log_and_return dflt) r = (Inr v, r')"
  by (simp add: try_except_def log_and_return_def andthen_def logger_error_def ret_def
      split: prod.splits sum.splits)

lemma degrades_cache_get_notes: "degrades_to None (cache_get_notes uid d l off) r"
  unfolding cache_get_notes_def
  by (intro degrades_try silent_intros) (simp add: silent_ret split: option.splits)

lemma degrades_cache_set_notes: "degrades_to False (cache_set_notes uid ns d l off ttl) r"
  unfolding cache_set_notes_def by (intro degrades_try silent_intros)

lemma degrades_cache_get_note: "degrades_to None (cache_get_note nid uid) r"
  unfolding cache_get_note_def
  by (intro degrades_try silent_intros) (simp add: silent_ret split: option.splits)

lemma degrades_cache_set_note: "degrades_to False (cache_set_note n ttl) r"
  unfolding cache_set_note_def by (intro degrades_try silent_intros)

lemma degrades_invalidate_user_notes: "degrades_to False (invalidate_user_notes uid) r"
  unfolding invalidate_user_notes_def by (intro degrades_try silent_intros)

lemma degrades_cache_get_notes_count: "degrades_to None (cache_get_notes_count uid d) r"
  unfolding cache_get_notes_count_def
  by (intro degrades_try silent_intros)
    (simp add: silent_ret silent_raise split: option.splits rvalue.splits)

lemma degrades_cache_set_notes_count: "degrades_to False (cache_set_notes_count uid c d ttl) r"
  unfolding cache_set_notes_count_def by (intro degrades_try silent_intros)

lemma degrades_increment_notes_count: "degrades_to False (increment_notes_count uid d i) r"
  unfolding increment_notes_count_def by (intro degrades_try silent_intros)

lemma never_raises_invalidate_note: "never_raises (invalidate_note nid uid) r"
proof -
  have "\<exists>v r'. invalidate_note nid uid r = (Inr v, r')"
    unfolding invalidate_note_def by (rule try_except_returns)
  then show ?thesis by (auto simp: never_raises_def)
qed

lemma invalidate_note_own_failure:
  "cache_faults r = True # fs \<or> (\<not> redis_client r \<and> \<not> env_ok r)
   \<Longrightarrow> fst (invalidate_note nid uid r) = Inr False"
  by (auto simp: invalidate_note_def try_except_def log_and_return_def andthen_def
      logger_error_def ret_def get_redis_client_def redis_delete_def redis_request_def
      split: prod.splits sum.splits)

text \<open>
  C3, as the code has it.  No method of the cache layer raises, whatever the backend
  does (the key functions are pure and cannot raise).  A method that logged a backend
  or decoding error during the call returns \<open>None\<close> when it reads and \<open>False\<close> when it
  writes.  \<^verbatim>\<open>invalidate_note\<close> returns \<open>False\<close> when its own request fails (building the
  client, or deleting the note's key); an error inside its call of
  \<^verbatim>\<open>invalidate_user_notes\<close> is caught and logged there, and \<^verbatim>\<open>invalidate_note\<close> goes on.
\<close>

theorem cache_layer_never_raises:
  "degrades_to None (cache_get_notes uid d l off) r
   \<and> degrades_to False (cache_set_notes uid ns d l off ttl) r
   \<and> degrades_to None (cache_get_note nid uid) r
   \<and> degrades_to False (cache_set_note n ttl) r
   \<and> degrades_to False (invalidate_user_notes uid) r
   \<and> degrades_to None (cache_get_notes_count uid d) r
   \<and> degrades_to False (cache_set_notes_count uid c d ttl) r
   \<and> degrades_to False (increment_notes_count uid d i) r
   \<and> never_raises (invalidate_note nid uid) r
   \<and> (cache_faults r = True # fs \<or> (\<not> redis_client r \<and> \<not> env_ok r)
        \<longrightarrow> fst (invalidate_note nid uid r) = Inr False)"
  by (intro conjI impI degrades_cache_get_notes degrades_cache_set_notes degrades_cache_get_note
      degrades_cache_set_note degrades_invalidate_user_notes degrades_cache_get_notes_count
      degrades_cache_set_notes_count degrades_increment_notes_count
      never_raises_invalidate_note invalidate_note_own_failure)

theorem cache_layer_witness:
  "cache_log (snd (cache_get_note ''1'' ''u'' failing_redis)) \<noteq> cache_log failing_redis
   \<and> fst (cache_get_note ''1'' ''u'' failing_redis) = Inr None
   \<and> cache_log (snd (increment_notes_count ''u'' False 1 flaky_redis)) \<noteq> cache_log flaky_redis
   \<and> fst (increment_notes_count ''u'' False 1 flaky_redis) = Inr False
   \<and> cache_faults failing_redis = [True]
   \<and> fst (invalidate_note ''1'' ''u'' failing_redis) = Inr False"
proof -
  note all = cache_layer_never_raises [of "''u''" False 10 0 failing_redis "[]" None "''1''"
      undefined 0 1 "[]"]
  note all' = cache_layer_never_raises [of "''u''" False 10 0 flaky_redis "[]" None "''1''"
      undefined 0 1 "[]"]
  have log1: "cache_log (snd (cache_get_note ''1'' ''u'' failing_redis)) \<noteq> cache_log failing_redis"
    by code_simp
  have log2: "cache_log (snd (increment_notes_count ''u'' False 1 flaky_redis)) \<noteq> cache_log flaky_redis"
    by code_simp
  have faults: "cache_faults failing_redis = [True]"
    by (simp add: failing_redis_def)
  from all log1 have "fst (cache_get_note ''1'' ''u'' failing_redis) = Inr None"
    by (auto simp: degrades_to_def split: prod.splits sum.splits)
  moreover from all' log2 have "fst (increment_notes_count ''u'' False 1 flaky_redis) = Inr False"
    by (auto simp: degrades_to_def split: prod.splits sum.splits)
  moreover from all faults have "fst (invalidate_note ''1'' ''u'' failing_redis) = Inr False"
    by blast
  ultimately show ?thesis using log1 log2 faults by blast
qed

text \<open>
  C3 as stated fails for \<^verbatim>\<open>invalidate_note\<close>: the backend answers the delete of the note's
  key and fails the next request, inside \<^verbatim>\<open>invalidate_user_notes\<close>; the error is logged and
  \<^verbatim>\<open>invalidate_note\<close> returns \<open>True\<close>.
\<close>

theorem invalidate_note_true_despite_failure:
  "cache_log (snd (invalidate_note ''1'' ''u'' flaky_redis)) = [CacheError]
   \<and> cache_log flaky_redis = []
   \<and> fst (invalidate_note ''1'' ''u'' flaky_redis) = Inr True"
  by code_simp

section \<open>Store failures\<close>

lemma silent_store_request: "silent store_log store_request"
  by (auto simp: silent_def store_request_def split: list.splits if_splits)

lemma silent_get_subcollection: "silent store_log get_subcollection"
  by (auto simp: silent_def get_subcollection_def split: if_splits)

lemma silent_doc_set: "silent store_log (doc_set uid nid data)"
  unfolding doc_set_def
  by (intro silent_andthen silent_store_request) (auto simp: silent_def put_notes_def)

lemma silent_doc_get: "silent store_log (doc_get uid nid)"
  unfolding doc_get_def
  by (intro silent_andthen silent_store_request) (auto simp: silent_def)

lemma silent_doc_update: "silent store_log (doc_update uid nid data)"
  unfolding doc_update_def
  by (intro silent_andthen silent_store_request)
    (auto simp: silent_def put_notes_def split: option.splits)

lemma silent_query_stream: "silent store_log (query_stream uid fl lim)"
  unfolding query_stream_def
  by (intro silent_andthen silent_store_request)
    (auto simp: silent_def Let_def split: option.splits if_splits)

lemma silent_reraise: "silent lg m \<Longrightarrow> silent lg (try_except m log_and_raise)"
  unfolding silent_def try_except_def log_and_raise_def andthen_def raise_def logging_error_def
  by (auto split: prod.splits sum.splits)

lemma silent_create_doc: "silent store_log (create_subcollection_document uid nid data)"
  unfolding create_subcollection_document_def
  by (intro silent_reraise silent_andthen silent_get_subcollection silent_doc_set silent_ret)

lemma silent_get_doc: "silent store_log (get_subcollection_document uid nid)"
  unfolding get_subcollection_document_def
  by (intro silent_reraise silent_andthen silent_get_subcollection silent_doc_get
      silent_case_option silent_ret)

lemma silent_update_doc: "silent store_log (update_subcollection_document uid nid data)"
  unfolding update_subcollection_document_def
  by (intro silent_reraise silent_andthen silent_get_subcollection silent_doc_update
      silent_get_doc silent_ret)

lemma silent_query: "silent store_log (query_subcollection uid fl lim)"
  unfolding query_subcollection_def
  by (intro silent_reraise silent_andthen silent_get_subcollection silent_query_stream silent_ret)

lemma silent_on_store: "silent store_log m \<Longrightarrow> silent store_errors (on_store m)"
  unfolding silent_def on_store_def store_errors_def
  by (auto split: prod.splits)

lemma silent_on_cache: "silent store_errors (on_cache m)"
  unfolding silent_def on_cache_def store_errors_def
  by (auto split: prod.splits)

lemmas silent_service = silent_andthen silent_on_cache silent_lift silent_ret silent_if
  silent_case_option
  silent_on_store [OF silent_create_doc] silent_on_store [OF silent_get_doc]
  silent_on_store [OF silent_update_doc] silent_on_store [OF silent_query]

lemma surfaces_try:
  "silent store_errors body \<Longrightarrow> surfaces (try_except body (\<lambda>e. raise (HTTPException 500))) w"
  unfolding silent_def surfaces_def try_except_def raise_def
  by (auto split: prod.splits sum.splits)

lemma swallows_try:
  "silent store_errors body \<Longrightarrow> swallows dflt (try_except body (\<lambda>e. ret dflt)) w"
  unfolding silent_def swallows_def try_except_def ret_def
  by (auto split: prod.splits sum.splits)

lemma surfaces_create_note: "surfaces (create_note nd uid ms now) w"
  unfolding create_note_def by (intro surfaces_try silent_service)

lemma surfaces_get_note: "surfaces (get_note nid uid) w"
  unfolding get_note_def by (intro surfaces_try silent_service)

lemma surfaces_get_notes: "surfaces (get_notes uid d l off) w"
  unfolding get_notes_def by (intro surfaces_try silent_service)

lemma surfaces_update_note: "surfaces (update_note nid nd uid now) w"
  unfolding update_note_def by (intro surfaces_try silent_service)

lemma surfaces_delete_note: "surfaces (delete_note nid uid now) w"
  unfolding delete_note_def by (intro surfaces_try silent_service)

lemma swallows_get_notes_count: "swallows 0 (get_notes_count uid d) w"
  unfolding get_notes_count_def by (intro swallows_try silent_service)

text \<open>Every exception that leaves a method of the store adapter was logged by it.\<close>

lemma keeps_ret: "keeps_log (ret a)"
  by (simp add: keeps_log_def ret_def)

lemma keeps_andthen: "keeps_log m \<Longrightarrow> (\<And>a. keeps_log (f a)) \<Longrightarrow> keeps_log (andthen m f)"
  unfolding keeps_log_def andthen_def
  by (fastforce split: prod.splits sum.splits)

lemma keeps_case_option:
  "keeps_log a \<Longrightarrow> (\<And>x. keeps_log (b x)) \<Longrightarrow> keeps_log (case v of None \<Rightarrow> a | Some x \<Rightarrow> b x)"
  by (simp split: option.splits)

lemma keeps_store_request: "keeps_log store_request"
  by (auto simp: keeps_log_def store_request_def split: list.splits if_splits)

lemma keeps_get_subcollection: "keeps_log get_subcollection"
  by (auto simp: keeps_log_def get_subcollection_def split: if_splits)

lemma keeps_doc_set: "keeps_log (doc_set uid nid data)"
  unfolding doc_set_def
  by (intro keeps_andthen keeps_store_request) (auto simp: keeps_log_def put_notes_def)

lemma keeps_doc_get: "keeps_log (doc_get uid nid)"
  unfolding doc_get_def
  by (intro keeps_andthen keeps_store_request) (auto simp: keeps_log_def)

lemma keeps_doc_update: "keeps_log (doc_update uid nid data)"
  unfolding doc_update_def
  by (intro keeps_andthen keeps_store_request)
    (auto simp: keeps_log_def put_notes_def split: option.splits)

lemma keeps_query_stream: "keeps_log (query_stream uid fl lim)"
  unfolding query_stream_def
  by (intro keeps_andthen keeps_store_request)
    (auto simp: keeps_log_def Let_def split: option.splits if_splits)

lemma keeps_reraise: "keeps_log m \<Longrightarrow> keeps_log (try_except m log_and_raise)"
  unfolding keeps_log_def try_except_def log_and_raise_def andthen_def raise_def logging_error_def
  by (fastforce split: prod.splits sum.splits)

lemma logged_reraise:
  "keeps_log m \<Longrightarrow> try_except m log_and_raise s = (Inl e, s')
   \<Longrightarrow> length (store_log s) < length (store_log s')"
  unfolding keeps_log_def try_except_def log_and_raise_def andthen_def raise_def logging_error_def
  by (fastforce split: prod.splits sum.splits)

lemma keeps_get_doc: "keeps_log (get_subcollection_document uid nid)"
  unfolding get_subcollection_document_def
  by (intro keeps_reraise keeps_andthen keeps_get_subcollection keeps_doc_get
      keeps_case_option keeps_ret)

lemma raise_logged_create:
  "create_subcollection_document uid nid data fs = (Inl e, fs')
   \<Longrightarrow> length (store_log fs) < length (store_log fs')"
  unfolding create_subcollection_document_def
  by (erule logged_reraise [rotated])
    (intro keeps_andthen keeps_get_subcollection keeps_doc_set keeps_ret)

lemma raise_logged_get:
  "get_subcollection_document uid nid fs = (Inl e, fs')
   \<Longrightarrow> length (store_log fs) < length (store_log fs')"
  unfolding get_subcollection_document_def
  by (erule logged_reraise [rotated])
    (intro keeps_andthen keeps_get_subcollection keeps_doc_get keeps_case_option keeps_ret)

lemma raise_logged_update:
  "update_subcollection_document uid nid data fs = (Inl e, fs')
   \<Longrightarrow> length (store_log fs) < length (store_log fs')"
  unfolding update_subcollection_document_def
  by (erule logged_reraise [rotated])
    (intro keeps_andthen keeps_get_subcollection keeps_doc_update keeps_get_doc keeps_ret)

lemma raise_logged_query:
  "query_subcollection uid fl lim fs = (Inl e, fs')
   \<Longrightarrow> length (store_log fs) < length (store_log fs')"
  unfolding query_subcollection_def
  by (erule logged_reraise [rotated])
    (intro keeps_andthen keeps_get_subcollection keeps_query_stream keeps_ret)

text \<open>
  C4, as the code has it.  When the store adapter raised (and so logged) an error during
  \<^verbatim>\<open>create_note\<close>, \<^verbatim>\<open>get_note\<close>, \<^verbatim>\<open>get_notes\<close>, \<^verbatim>\<open>update_note\<close> or \<^verbatim>\<open>delete_note\<close>, the
  method ends in \<^verbatim>\<open>HTTPException(500)\<close>.  \<^verbatim>\<open>get_notes_count\<close> catches the error and returns
  the count \<open>0\<close>.
\<close>

theorem store_failure_surfaces_except_count:
  "surfaces (create_note nd uid ms now) w
   \<and> surfaces (get_note nid uid) w
   \<and> surfaces (get_notes uid d l off) w
   \<and> surfaces (update_note nid upd uid now) w
   \<and> surfaces (delete_note nid uid now) w
   \<and> swallows 0 (get_notes_count uid d) w"
  by (intro conjI surfaces_create_note surfaces_get_note surfaces_get_notes
      surfaces_update_note surfaces_delete_note swallows_get_notes_count)

theorem store_failure_witness:
  "store_errors (snd (delete_note ''1'' ''u'' 5 store_down)) \<noteq> store_errors store_down
   \<and> fst (delete_note ''1'' ''u'' 5 store_down) = Inl (HTTPException 500)
   \<and> store_errors (snd (get_notes ''u'' False 10 0 store_down)) \<noteq> store_errors store_down
   \<and> fst (get_notes ''u'' False 10 0 store_down) = Inl (HTTPException 500)"
proof -
  note all = store_failure_surfaces_except_count
    [of undefined "''u''" 0 5 store_down "''1''" False 10 0 undefined]
  have log1: "store_errors (snd (delete_note ''1'' ''u'' 5 store_down)) \<noteq> store_errors store_down"
    by code_simp
  have log2: "store_errors (snd (get_notes ''u'' False 10 0 store_down)) \<noteq> store_errors store_down"
    by code_simp
  from all log1 have "fst (delete_note ''1'' ''u'' 5 store_down) = Inl (HTTPException 500)"
    by (auto simp: surfaces_def split: prod.splits)
  moreover from all log2 have "fst (get_notes ''u'' False 10 0 store_down) = Inl (HTTPException 500)"
    by (auto simp: surfaces_def split: prod.splits)
  ultimately show ?thesis using log1 log2 by blast
qed

text \<open>
  C4 as stated fails for the count: with a store that raises on every call,
  \<^verbatim>\<open>get_notes_count\<close> returns \<open>0\<close>, a count like any other.
\<close>

theorem count_returns_zero_on_store_failure:
  "store_errors store_down = []
   \<and> store_errors (snd (get_notes_count ''u'' False store_down)) = [StoreError]
   \<and> fst (get_notes_count ''u'' False store_down) = Inr 0"
  by code_simp

section \<open>The store adapter when the store answers\<close>

lemma answers_after [simp]: "store_answers fs \<Longrightarrow> store_answers (after_request fs)"
  by (cases "store_faults fs") (auto simp: store_answers_def after_request_def)

lemma after_request_sel [simp]:
  "users (after_request fs) = users fs" "db (after_request fs) = db fs"
  "store_log (after_request fs) = store_log fs"
  "notes_of (after_request fs) uid = notes_of fs uid"
  by (simp_all add: after_request_def notes_of_def)

lemma request_answers: "store_answers fs \<Longrightarrow> store_request fs = (Inr (), after_request fs)"
  by (cases "store_faults fs") (auto simp: store_answers_def after_request_def store_request_def)

lemma put_notes_sel [simp]:
  "db (put_notes uid ns fs) = db fs" "store_faults (put_notes uid ns fs) = store_faults fs"
  "store_log (put_notes uid ns fs) = store_log fs"
  "notes_of (put_notes uid ns fs) uid' = (if uid' = uid then ns else notes_of fs uid')"
  by (simp_all add: put_notes_def notes_of_def update_conv')

lemma answers_put [simp]: "store_answers (put_notes uid ns fs) = store_answers fs"
  by (simp add: store_answers_def)

lemma with_id_nonempty [simp]: "with_id nid d \<noteq> []"
  by (cases d) (auto simp: with_id_def AList.merge_def)

lemma not_absent_with_id [simp]: "\<not> absent (Some (with_id nid d))"
  by (simp add: absent_def)

lemma get_doc_answers:
  "store_answers fs \<Longrightarrow>
   get_subcollection_document uid nid fs
     = (Inr (map_option (with_id nid) (map_of (notes_of fs uid) nid)), after_request fs)"
  by (auto simp: get_subcollection_document_def try_except_def andthen_def get_subcollection_def
      doc_get_def request_answers ret_def store_answers_def split: option.splits)

lemma get_subcollection_answers: "store_answers fs \<Longrightarrow> get_subcollection fs = (Inr (), fs)"
  by (simp add: get_subcollection_def store_answers_def)

lemma update_doc_answers:
  "store_answers fs \<Longrightarrow> map_of (notes_of fs uid) nid = Some old \<Longrightarrow>
   update_subcollection_document uid nid data fs
     = (Inr (Some (with_id nid (AList.merge old data))),
        after_request (put_notes uid (AList.update nid (AList.merge old data) (notes_of fs uid))
          (after_request fs)))"
  by (simp add: update_subcollection_document_def try_except_def andthen_def
      doc_update_def request_answers ret_def get_doc_answers update_conv'
      get_subcollection_answers)

lemma create_doc_answers:
  "store_answers fs \<Longrightarrow>
   create_subcollection_document uid nid data fs
     = (Inr (with_id nid data),
        put_notes uid (AList.update nid data (notes_of fs uid)) (after_request fs))"
  by (simp add: create_subcollection_document_def try_except_def andthen_def
      doc_set_def request_answers ret_def get_subcollection_answers)

lemma query_answers:
  "store_answers fs \<Longrightarrow>
   query_subcollection uid fl None fs
     = (Inr (map (\<lambda>(nid, d). with_id nid d) (filter (\<lambda>(nid, d). matches fl d) (notes_of fs uid))),
        after_request fs)"
  by (simp add: query_subcollection_def try_except_def andthen_def
      query_stream_def request_answers ret_def get_subcollection_answers)

text \<open>Calls that leave the store as it is.\<close>

lemma frame_ret: "store_frame (ret a)"
  by (simp add: store_frame_def ret_def)
lemma frame_raise: "store_frame (raise e)"
  by (simp add: store_frame_def raise_def)
lemma frame_lift: "store_frame (lift x)"
  by (simp add: store_frame_def lift_def)
lemma frame_on_cache: "store_frame (on_cache m)"
  by (auto simp: store_frame_def on_cache_def split: prod.splits)
lemma frame_andthen: "store_frame m \<Longrightarrow> (\<And>a. store_frame (f a)) \<Longrightarrow> store_frame (andthen m f)"
  unfolding store_frame_def andthen_def by (fastforce split: prod.splits sum.splits)
lemma frame_try: "store_frame m \<Longrightarrow> (\<And>e. store_frame (h e)) \<Longrightarrow> store_frame (try_except m h)"
  unfolding store_frame_def try_except_def by (fastforce split: prod.splits sum.splits)

lemmas frame_intros = frame_andthen frame_on_cache frame_lift frame_ret frame_raise

lemma frame_snd: "store_frame g \<Longrightarrow> store (snd (g w)) = store w"
  by (cases "g w") (auto simp: store_frame_def)

lemma store_try: "(\<And>e. store_frame (h e)) \<Longrightarrow> store (snd (try_except m h w)) = store (snd (m w))"
  by (cases "m w") (auto simp: try_except_def frame_snd split: sum.splits)

lemma store_andthen: "(\<And>a. store_frame (f a)) \<Longrightarrow> store (snd (andthen m f w)) = store (snd (m w))"
  by (cases "m w") (auto simp: andthen_def frame_snd split: sum.splits)

lemma on_store_Inr: "m (store w) = (Inr a, fs') \<Longrightarrow> on_store m w = (Inr a, w\<lparr>store := fs'\<rparr>)"
  by (simp add: on_store_def)

lemma andthen_Inr: "m w = (Inr a, w1) \<Longrightarrow> andthen m f w = f a w1"
  by (simp add: andthen_def)

lemma frame_update_tail:
  "store_frame (case (if absent u then None else u) of
            None \<Rightarrow> ret None
          | Some d \<Rightarrow>
              andthen (lift (note_of_dict uid d)) (\<lambda>n.
              andthen (on_cache (cache_set_note n None)) (\<lambda>_.
              andthen (on_cache (invalidate_user_notes uid)) (\<lambda>_.
              ret (Some n)))))"
  by (auto split: option.splits intro!: frame_intros)

lemma update_note_missing:
  assumes "store_answers (store w)" and "stored w uid nid = None"
  shows "update_note nid nd uid now w = (Inr None, w\<lparr>store := after_request (store w)\<rparr>)"
proof -
  from assms have "on_store (get_subcollection_document uid nid) w
      = (Inr None, w\<lparr>store := after_request (store w)\<rparr>)"
    by (intro on_store_Inr) (simp add: get_doc_answers stored_def)
  then show ?thesis
    by (simp add: update_note_def try_except_def andthen_Inr absent_def ret_def)
qed

lemma update_note_store:
  assumes ans: "store_answers (store w)" and old: "stored w uid nid = Some old"
  shows "store (snd (update_note nid nd uid now w))
     = after_request (put_notes uid
         (AList.update nid (AList.merge old (update_data nd now)) (notes_of (store w) uid))
         (after_request (after_request (store w))))"
proof -
  let ?w1 = "w\<lparr>store := after_request (store w)\<rparr>"
  have get: "on_store (get_subcollection_document uid nid) w = (Inr (Some (with_id nid old)), ?w1)"
    using ans old by (intro on_store_Inr) (simp add: get_doc_answers stored_def)
  have upd: "on_store (update_subcollection_document uid nid (update_data nd now)) ?w1
      = (Inr (Some (with_id nid (AList.merge old (update_data nd now)))),
         ?w1\<lparr>store := after_request (put_notes uid
           (AList.update nid (AList.merge old (update_data nd now)) (notes_of (store w) uid))
           (after_request (after_request (store w))))\<rparr>)"
    using ans old by (intro on_store_Inr) (simp add: update_doc_answers stored_def)
  note step = andthen_Inr [of "on_store (get_subcollection_document uid nid)" w, OF get]
  show ?thesis
    unfolding update_note_def
    by (simp add: store_try frame_raise step store_andthen frame_update_tail upd)
qed

section \<open>Partial update\<close>

lemma map_of_field_if_set:
  "map_of (field_if_set k v wrap @ rest) k' =
     (if k' = k \<and> v \<noteq> None then map_option wrap v else map_of rest k')"
  by (auto simp: field_if_set_def split: option.splits)

lemma update_data_lookup: "map_of (update_data nd now) k = fields_to_write nd now k"
proof -
  have last: "map_of (field_if_set k0 v wrap) k' = (if k' = k0 then map_option wrap v else None)"
    for k0 k' and v :: "'a option" and wrap
    by (auto simp: field_if_set_def split: option.splits)
  show ?thesis
    unfolding update_data_def fields_to_write_def
    by (simp add: map_of_field_if_set last del: map_of_append)
qed

lemma stored_after_write:
  "stored (w\<lparr>store := after_request (put_notes uid (AList.update nid d (notes_of fs uid)) fs')\<rparr>) u n
     = (if u = uid then (if n = nid then Some d else map_of (notes_of fs uid) n)
        else map_of (notes_of fs' u) n)"
  by (simp add: stored_def update_conv')

text \<open>
  C5.  With a store that answers: when the owner's sub-collection has no note \<open>nid\<close>,
  \<^verbatim>\<open>update_note\<close> returns \<open>None\<close> and the sub-collections are as they were.  Otherwise the
  note's document afterwards holds, for every field to write (the fields set in the input
  and \<^verbatim>\<open>updated_at\<close>), the new value, and for every other field the value it had; every other
  document is as it was.
\<close>

theorem update_note_partial_update:
  assumes "store_answers (store w)"
  shows "(stored w uid nid = None \<longrightarrow>
            fst (update_note nid nd uid now w) = Inr None
            \<and> users (store (snd (update_note nid nd uid now w))) = users (store w))
       \<and> (\<forall>old. stored w uid nid = Some old \<longrightarrow>
            (\<exists>new. stored (snd (update_note nid nd uid now w)) uid nid = Some new
               \<and> (\<forall>k. map_of new k =
                     (case fields_to_write nd now k of Some v \<Rightarrow> Some v | None \<Rightarrow> map_of old k)))
            \<and> (\<forall>u n. (u, n) \<noteq> (uid, nid) \<longrightarrow>
                  stored (snd (update_note nid nd uid now w)) u n = stored w u n))"
proof (intro conjI impI allI)
  assume "stored w uid nid = None"
  with assms show "fst (update_note nid nd uid now w) = Inr None"
    and "users (store (snd (update_note nid nd uid now w))) = users (store w)"
    by (simp_all add: update_note_missing)
next
  fix old assume old: "stored w uid nid = Some old"
  let ?new = "AList.merge old (update_data nd now)"
  have st: "stored (snd (update_note nid nd uid now w)) u n
      = (if u = uid \<and> n = nid then Some ?new else stored w u n)" for u n
    unfolding stored_def update_note_store [OF assms old]
    by (simp add: update_conv')
  have "\<forall>k. map_of ?new k =
      (case fields_to_write nd now k of Some v \<Rightarrow> Some v | None \<Rightarrow> map_of old k)"
    by (simp add: merge_conv' map_add_def update_data_lookup)
  with st show "\<exists>new. stored (snd (update_note nid nd uid now w)) uid nid = Some new
               \<and> (\<forall>k. map_of new k =
                     (case fields_to_write nd now k of Some v \<Rightarrow> Some v | None \<Rightarrow> map_of old k))"
    by simp
  fix u n assume "(u, n) \<noteq> (uid, nid)"
  with st show "stored (snd (update_note nid nd uid now w)) u n = stored w u n"
    by auto
qed

theorem update_note_witness:
  "store_answers (store one_note_world)
   \<and> stored one_note_world ''u'' ''2'' = None
   \<and> fst (update_note ''2'' retitle ''u'' 9 one_note_world) = Inr None
   \<and> stored one_note_world ''u'' ''1'' = Some (note_data_dict sample_note 1)
   \<and> (\<exists>new. stored (snd (update_note ''1'' retitle ''u'' 9 one_note_world)) ''u'' ''1'' = Some new
         \<and> map_of new ''title'' = Some (FStr ''new'')
         \<and> map_of new ''updated_at'' = Some (FTime 9)
         \<and> map_of new ''content'' = Some (FStr ''c''))"
proof -
  have ans: "store_answers (store one_note_world)" by code_simp
  have none: "stored one_note_world ''u'' ''2'' = None" by code_simp
  have some: "stored one_note_world ''u'' ''1'' = Some (note_data_dict sample_note 1)" by code_simp
  have f1: "fields_to_write retitle 9 ''title'' = Some (FStr ''new'')" by code_simp
  have f2: "fields_to_write retitle 9 ''updated_at'' = Some (FTime 9)" by code_simp
  have f3: "fields_to_write retitle 9 ''content'' = None" by code_simp
  have old: "map_of (note_data_dict sample_note 1) ''content'' = Some (FStr ''c'')" by code_simp
  from update_note_partial_update [OF ans, of "''u''" "''2''" retitle 9] none
  have a: "fst (update_note ''2'' retitle ''u'' 9 one_note_world) = Inr None" by blast
  from update_note_partial_update [OF ans, of "''u''" "''1''" retitle 9] some
  obtain new where new: "stored (snd (update_note ''1'' retitle ''u'' 9 one_note_world)) ''u'' ''1'' = Some new"
    and look: "\<And>k. map_of new k = (case fields_to_write retitle 9 k of Some v \<Rightarrow> Some v
                 | None \<Rightarrow> map_of (note_data_dict sample_note 1) k)"
    by blast
  from look [of "''title''"] look [of "''updated_at''"] look [of "''content''"] f1 f2 f3 old
  have "map_of new ''title'' = Some (FStr ''new'')" "map_of new ''updated_at'' = Some (FTime 9)"
    "map_of new ''content'' = Some (FStr ''c'')" by simp_all
  with new ans none some a show ?thesis by blast
qed

section \<open>What the operations do to the stored documents\<close>

lemma step_ret: "step proj (=) (ret a)" by (simp add: step_def ret_def)
lemma step_raise: "step proj (=) (raise e)" by (simp add: step_def raise_def)
lemma step_lift: "step proj (=) (lift x)" by (simp add: step_def lift_def)

lemma step_refl: "(\<And>u. R u u) \<Longrightarrow> step proj (=) m \<Longrightarrow> step proj R m"
  unfolding step_def by fastforce

lemma step_frame_then:
  assumes refl: "\<And>u. R u u" and m: "step proj (=) m" and f: "\<And>a. step proj R (f a)"
  shows "step proj R (andthen m f)"
  unfolding step_def
proof (intro allI impI)
  fix s r s' assume run: "andthen m f s = (r, s')"
  obtain r1 s1 where m1: "m s = (r1, s1)" by (cases "m s")
  with m have eq: "proj s = proj s1" by (auto simp: step_def)
  show "R (proj s) (proj s')"
  proof (cases r1)
    case (Inl e)
    with run m1 have "s' = s1" by (simp add: andthen_def)
    with eq refl show ?thesis by simp
  next
    case (Inr a)
    with run m1 have "f a s1 = (r, s')" by (simp add: andthen_def)
    with f [of a] have "R (proj s1) (proj s')" by (auto simp: step_def)
    with eq show ?thesis by simp
  qed
qed

lemma step_then_frame:
  assumes m: "step proj R m" and f: "\<And>a. step proj (=) (f a)"
  shows "step proj R (andthen m f)"
  unfolding step_def
proof (intro allI impI)
  fix s r s' assume run: "andthen m f s = (r, s')"
  obtain r1 s1 where m1: "m s = (r1, s1)" by (cases "m s")
  with m have rel: "R (proj s) (proj s1)" by (auto simp: step_def)
  show "R (proj s) (proj s')"
  proof (cases r1)
    case (Inl e)
    with run m1 have "s' = s1" by (simp add: andthen_def)
    with rel show ?thesis by simp
  next
    case (Inr a)
    with run m1 have "f a s1 = (r, s')" by (simp add: andthen_def)
    with f [of a] have "proj s1 = proj s'" by (auto simp: step_def)
    with rel show ?thesis by simp
  qed
qed

lemma step_try:
  assumes m: "step proj R m" and h: "\<And>e. step proj (=) (h e)"
  shows "step proj R (try_except m h)"
  unfolding step_def
proof (intro allI impI)
  fix s r s' assume run: "try_except m h s = (r, s')"
  obtain r1 s1 where m1: "m s = (r1, s1)" by (cases "m s")
  with m have rel: "R (proj s) (proj s1)" by (auto simp: step_def)
  show "R (proj s) (proj s')"
  proof (cases r1)
    case (Inl e)
    with run m1 have "h e s1 = (r, s')" by (simp add: try_except_def)
    with h [of e] have "proj s1 = proj s'" by (auto simp: step_def)
    with rel show ?thesis by simp
  next
    case (Inr a)
    with run m1 have "s' = s1" by (simp add: try_except_def)
    with rel show ?thesis by simp
  qed
qed

lemma step_if: "step proj R a \<Longrightarrow> step proj R b \<Longrightarrow> step proj R (if c then a else b)"
  by simp

lemma step_case_option:
  "step proj R a \<Longrightarrow> (\<And>x. step proj R (b x)) \<Longrightarrow> step proj R (case v of None \<Rightarrow> a | Some x \<Rightarrow> b x)"
  by (simp split: option.splits)

lemma step_on_store: "step users R m \<Longrightarrow> step docs R (on_store m)"
  unfolding step_def on_store_def docs_def by (auto split: prod.splits)

lemma step_on_cache: "step docs (=) (on_cache m)"
  unfolding step_def on_cache_def docs_def by (auto split: prod.splits)

lemmas frame_rules = step_frame_then [where R = "(=)", OF refl] step_try [where R = "(=)"]
  step_if step_case_option step_ret step_raise step_lift step_on_cache

lemma step_store_request: "step users (=) store_request"
  by (auto simp: step_def store_request_def split: list.splits)

lemma step_logging_error: "step users (=) (logging_error e)"
  by (auto simp: step_def logging_error_def)

lemma step_log_and_raise: "step users (=) (log_and_raise e)"
  unfolding log_and_raise_def by (intro frame_rules step_logging_error)

lemma step_get_subcollection: "step users (=) get_subcollection"
  by (auto simp: step_def get_subcollection_def)

lemma step_doc_get: "step users (=) (doc_get uid nid)"
  unfolding doc_get_def
  by (intro frame_rules step_store_request) (auto simp: step_def)

lemma step_query_stream: "step users (=) (query_stream uid fl lim)"
  unfolding query_stream_def
  by (intro frame_rules step_store_request) (auto simp: step_def Let_def split: option.splits)

lemma wrote_refl: "wrote uid nid data us us"
  by (simp add: wrote_def)

lemma made_refl: "made uid nid data us us"
  by (simp add: made_def)

lemma step_doc_update: "step users (wrote uid nid data) (doc_update uid nid data)"
  unfolding doc_update_def
  apply (rule step_frame_then [OF wrote_refl step_store_request])
  apply (auto simp: step_def wrote_def put_notes_def notes_of_def split: option.splits)
  done

lemma step_doc_set: "step users (made uid nid data) (doc_set uid nid data)"
  unfolding doc_set_def
  apply (rule step_frame_then [OF made_refl step_store_request])
  apply (auto simp: step_def made_def put_notes_def notes_of_def split: option.splits)
  done

lemma step_get_doc: "step users (=) (get_subcollection_document uid nid)"
  unfolding get_subcollection_document_def
  by (intro frame_rules step_get_subcollection step_doc_get step_log_and_raise)

lemma step_query: "step users (=) (query_subcollection uid fl lim)"
  unfolding query_subcollection_def
  by (intro frame_rules step_get_subcollection step_query_stream step_log_and_raise)

lemma step_update_doc:
  "step users (wrote uid nid data) (update_subcollection_document uid nid data)"
  unfolding update_subcollection_document_def
  apply (rule step_try [OF _ step_log_and_raise])
  apply (rule step_frame_then [OF wrote_refl step_get_subcollection])
  apply (rule step_then_frame [OF step_doc_update])
  apply (intro frame_rules step_get_doc)
  done

lemma step_create_doc:
  "step users (made uid nid data) (create_subcollection_document uid nid data)"
  unfolding create_subcollection_document_def
  apply (rule step_try [OF _ step_log_and_raise])
  apply (rule step_frame_then [OF made_refl step_get_subcollection])
  apply (rule step_then_frame [OF step_doc_set])
  apply (intro frame_rules)
  done

lemmas docs_frame = frame_rules step_on_store [OF step_get_doc] step_on_store [OF step_query]

lemma get_note_docs: "step docs (=) (get_note nid uid)"
  unfolding get_note_def by (intro docs_frame)

lemma get_notes_docs: "step docs (=) (get_notes uid d l off)"
  unfolding get_notes_def by (intro docs_frame)

lemma get_notes_count_docs: "step docs (=) (get_notes_count uid d)"
  unfolding get_notes_count_def by (intro docs_frame)

lemma update_note_docs:
  "step docs (wrote uid nid (update_data nd now)) (update_note nid nd uid now)"
  unfolding update_note_def
  apply (rule step_try [OF _ step_raise])
  apply (rule step_frame_then [OF wrote_refl step_on_store [OF step_get_doc]])
  apply (rule step_if)
   apply (rule step_refl [OF wrote_refl step_ret])
  apply (rule step_then_frame [OF step_on_store [OF step_update_doc]])
  apply (intro docs_frame)
  done

lemma delete_note_docs:
  "step docs (wrote uid nid [(''is_deleted'', FBool True), (''updated_at'', FTime now)])
     (delete_note nid uid now)"
  unfolding delete_note_def
  apply (rule step_try [OF _ step_raise])
  apply (rule step_frame_then [OF wrote_refl step_on_store [OF step_get_doc]])
  apply (rule step_if)
   apply (rule step_refl [OF wrote_refl step_ret])
  apply (rule step_then_frame [OF step_on_store [OF step_update_doc]])
  apply (intro docs_frame)
  done

lemma create_note_docs:
  "step docs (made uid (str_int (int ms)) (note_data_dict nd now)) (create_note nd uid ms now)"
  unfolding create_note_def
  apply (rule step_try [OF _ step_raise])
  apply (rule step_then_frame [OF step_on_store [OF step_create_doc]])
  apply (intro docs_frame)
  done

lemma stored_docs: "stored w u n = map_of (case map_of (docs w) u of None \<Rightarrow> [] | Some ns \<Rightarrow> ns) n"
  by (simp add: stored_def docs_def notes_of_def)

lemma stepD: "step proj R m \<Longrightarrow> R (proj s) (proj (snd (m s)))"
  by (cases "m s") (auto simp: step_def)

lemma wrote_stored:
  assumes "wrote uid nid data (docs w) (docs w')"
  shows "stored w' u n = stored w u n
     \<or> (u = uid \<and> n = nid \<and>
        (\<exists>old. stored w uid nid = Some old \<and> stored w' uid nid = Some (AList.merge old data)))"
proof (cases "docs w' = docs w")
  case True
  then show ?thesis by (simp add: stored_docs)
next
  case False
  with assms obtain old where old: "stored w uid nid = Some old"
    and new: "docs w' = AList.update uid
       (AList.update nid (AList.merge old data)
          (case map_of (docs w) uid of None \<Rightarrow> [] | Some ns \<Rightarrow> ns)) (docs w)"
    by (auto simp: wrote_def stored_docs split: option.splits)
  show ?thesis
  proof (cases "u = uid \<and> n = nid")
    case True
    with old new show ?thesis by (simp add: stored_docs update_conv')
  next
    case False
    with new have "stored w' u n = stored w u n"
      by (auto simp: stored_docs update_conv')
    then show ?thesis ..
  qed
qed

lemma made_stored:
  assumes "made uid nid data (docs w) (docs w')"
  shows "stored w' u n = stored w u n \<or> (u = uid \<and> n = nid \<and> stored w' uid nid = Some data)"
proof (cases "docs w' = docs w")
  case True
  then show ?thesis by (simp add: stored_docs)
next
  case False
  with assms have new: "docs w' = AList.update uid
       (AList.update nid data (case map_of (docs w) uid of None \<Rightarrow> [] | Some ns \<Rightarrow> ns)) (docs w)"
    by (auto simp: made_def)
  show ?thesis
  proof (cases "u = uid \<and> n = nid")
    case True
    with new show ?thesis by (simp add: stored_docs update_conv')
  next
    case False
    with new have "stored w' u n = stored w u n"
      by (auto simp: stored_docs update_conv')
    then show ?thesis ..
  qed
qed

lemma same_stored: "docs w = docs w' \<Longrightarrow> stored w' u n = stored w u n"
  by (simp add: stored_docs)

lemma merged_lookup:
  "map_of (AList.merge old (update_data nd now)) k
     = (case fields_to_write nd now k of Some v \<Rightarrow> Some v | None \<Rightarrow> map_of old k)"
  by (simp add: merge_conv' map_add_def update_data_lookup)

lemma create_note_stored:
  "stored (snd (create_note nd u ms now w)) uid nid = stored w uid nid
   \<or> (uid = u \<and> nid = str_int (int ms)
      \<and> stored (snd (create_note nd u ms now w)) u (str_int (int ms)) = Some (note_data_dict nd now))"
  by (rule made_stored [OF stepD [OF create_note_docs]])

lemma update_note_stored:
  "stored (snd (update_note n nd u now w)) uid nid = stored w uid nid
   \<or> (uid = u \<and> nid = n
      \<and> (\<exists>old. stored w u n = Some old
            \<and> stored (snd (update_note n nd u now w)) u n
                = Some (AList.merge old (update_data nd now))))"
  by (rule wrote_stored [OF stepD [OF update_note_docs]])

lemma delete_note_stored:
  "stored (snd (delete_note n u now w)) uid nid = stored w uid nid
   \<or> (uid = u \<and> nid = n
      \<and> (\<exists>old. stored w u n = Some old
            \<and> stored (snd (delete_note n u now w)) u n
                = Some (AList.merge old [(''is_deleted'', FBool True), (''updated_at'', FTime now)])))"
  by (rule wrote_stored [OF stepD [OF delete_note_docs]])

lemma get_note_stored: "stored (snd (get_note n u w)) uid nid = stored w uid nid"
  by (rule same_stored [OF stepD [OF get_note_docs]])

lemma get_notes_stored: "stored (snd (get_notes u d l off w)) uid nid = stored w uid nid"
  by (rule same_stored [OF stepD [OF get_notes_docs]])

lemma get_notes_count_stored: "stored (snd (get_notes_count u d w)) uid nid = stored w uid nid"
  by (rule same_stored [OF stepD [OF get_notes_count_docs]])

lemma perform_keeps_deleted:
  assumes del: "soft_deleted w uid nid" and ok: "\<not> revives uid nid r"
  shows "soft_deleted (perform r w) uid nid"
proof (cases r)
  case (CreateNote nd u ms now)
  with create_note_stored [of nd u ms now w uid nid] ok
  have "stored (perform r w) uid nid = stored w uid nid" by auto
  with del show ?thesis by (simp add: soft_deleted_def)
next
  case (GetNote n u)
  with del show ?thesis by (simp add: soft_deleted_def get_note_stored)
next
  case (GetNotes u d l off)
  with del show ?thesis by (simp add: soft_deleted_def get_notes_stored)
next
  case (GetNotesCount u d)
  with del show ?thesis by (simp add: soft_deleted_def get_notes_count_stored)
next
  case (UpdateNote n nd u now)
  from update_note_stored [of n nd u now w uid nid]
  consider "stored (perform r w) uid nid = stored w uid nid"
    | old where "u = uid" "n = nid" "stored w uid nid = Some old"
        "stored (perform r w) uid nid = Some (AList.merge old (update_data nd now))"
    using UpdateNote by auto
  then show ?thesis
  proof cases
    case 1
    with del show ?thesis by (simp add: soft_deleted_def)
  next
    case 2
    with ok UpdateNote have "upd_is_deleted nd \<noteq> Some False" by simp
    then have "fields_to_write nd now ''is_deleted'' = None
        \<or> fields_to_write nd now ''is_deleted'' = Some (FBool True)"
      by (cases "upd_is_deleted nd") (auto simp: fields_to_write_def)
    with 2 del show ?thesis
      by (auto simp: soft_deleted_def merged_lookup)
  qed
next
  case (DeleteNote n u now)
  from delete_note_stored [of n u now w uid nid]
  consider "stored (perform r w) uid nid = stored w uid nid"
    | old where "stored (perform r w) uid nid
        = Some (AList.merge old [(''is_deleted'', FBool True), (''updated_at'', FTime now)])"
    using DeleteNote by auto
  then show ?thesis
  proof cases
    case 1
    with del show ?thesis by (simp add: soft_deleted_def)
  next
    case 2
    then show ?thesis by (simp add: soft_deleted_def update_conv')
  qed
qed

section \<open>Soft deletion\<close>

text \<open>
  C6, as the code has it.  A note that is soft-deleted stays soft-deleted under every
  sequence of create, get, list, count, update and delete requests, whatever the store
  and the cache do, as long as no request revives it: no update of that note carries
  \<^verbatim>\<open>is_deleted=False\<close>, and no create by its owner generates the note's own identifier
  again.
\<close>

theorem soft_delete_terminal_without_revival:
  "soft_deleted w uid nid \<Longrightarrow> \<not> list_ex (revives uid nid) rs
   \<Longrightarrow> soft_deleted (run rs w) uid nid"
  unfolding run_def
  by (induction rs arbitrary: w) (simp_all add: perform_keeps_deleted)

theorem soft_delete_terminal_witness:
  "soft_deleted deleted_world ''u'' ''1'' \<and> \<not> list_ex (revives ''u'' ''1'') harmless
   \<and> soft_deleted (run harmless deleted_world) ''u'' ''1''"
proof -
  have a: "soft_deleted deleted_world ''u'' ''1''" by code_simp
  have b: "\<not> list_ex (revives ''u'' ''1'') harmless" by code_simp
  from soft_delete_terminal_without_revival [OF a b] a b show ?thesis by blast
qed

text \<open>
  C6 as stated fails: \<^verbatim>\<open>NoteUpdate\<close> has the field \<^verbatim>\<open>is_deleted\<close> and \<^verbatim>\<open>update_note\<close> writes
  it, so an update with \<^verbatim>\<open>is_deleted=False\<close> makes a soft-deleted note active again.
\<close>

theorem update_revives_deleted_note:
  "soft_deleted deleted_world ''u'' ''1''
   \<and> map_option (\<lambda>d. map_of d ''is_deleted'')
        (stored (run [UpdateNote ''1'' undelete ''u'' 3] deleted_world) ''u'' ''1'')
      = Some (Some (FBool False))"
  by code_simp

section \<open>Delete and get when the store answers\<close>

lemma yields_ret: "P a \<Longrightarrow> yields P (ret a)"
  by (simp add: yields_def ret_def)

lemma yields_andthen:
  assumes "yields Q m" and "\<And>a. yields P (f a)"
  shows "yields P (andthen m f)"
  unfolding yields_def
proof
  fix s
  from assms(1) obtain a s1 where "m s = (Inr a, s1)"
    unfolding yields_def by blast
  moreover from assms(2) [of a] obtain v s' where "f a s1 = (Inr v, s')" "P v"
    unfolding yields_def by blast
  ultimately show "\<exists>v s'. andthen m f s = (Inr v, s') \<and> P v"
    by (simp add: andthen_def)
qed

lemma yields_cache_method: "yields (\<lambda>_. True) (try_except body (log_and_return dflt))"
  unfolding yields_def using try_except_returns by fastforce

lemma yields_on_cache: "yields P m \<Longrightarrow> yields P (on_cache m)"
  unfolding yields_def on_cache_def
  by (auto split: prod.splits) (metis fst_conv)

lemma yields_invalidate_note: "yields (\<lambda>_. True) (on_cache (invalidate_note nid uid))"
  unfolding invalidate_note_def by (intro yields_on_cache yields_cache_method)

lemma yields_invalidate_user_notes: "yields (\<lambda>_. True) (on_cache (invalidate_user_notes uid))"
  unfolding invalidate_user_notes_def by (intro yields_on_cache yields_cache_method)

lemma yields_increment: "yields (\<lambda>_. True) (on_cache (increment_notes_count uid d i))"
  unfolding increment_notes_count_def by (intro yields_on_cache yields_cache_method)

lemma yields_set_note: "yields (\<lambda>_. True) (on_cache (cache_set_note n ttl))"
  unfolding cache_set_note_def by (intro yields_on_cache yields_cache_method)

lemma yieldsD: "yields P m \<Longrightarrow> \<exists>v. fst (m s) = Inr v \<and> P v"
  unfolding yields_def by (metis fst_conv)

lemma frame_delete_tail:
  "store_frame (andthen (on_cache (invalidate_note nid uid)) (\<lambda>_.
            andthen (on_cache (invalidate_user_notes uid)) (\<lambda>_.
            andthen (on_cache (increment_notes_count uid False (- 1))) (\<lambda>_.
            andthen (on_cache (increment_notes_count uid True 1)) (\<lambda>_.
            ret True)))))"
  by (intro frame_intros)

lemma yields_delete_tail:
  "yields (\<lambda>v. v = True) (andthen (on_cache (invalidate_note nid uid)) (\<lambda>_.
            andthen (on_cache (invalidate_user_notes uid)) (\<lambda>_.
            andthen (on_cache (increment_notes_count uid False (- 1))) (\<lambda>_.
            andthen (on_cache (increment_notes_count uid True 1)) (\<lambda>_.
            ret True)))))"
  by (intro yields_andthen [where Q = "\<lambda>_. True"] yields_invalidate_note
      yields_invalidate_user_notes yields_increment yields_ret refl)

lemma delete_note_answers:
  assumes ans: "store_answers (store w)" and old: "stored w uid nid = Some old"
  shows "fst (delete_note nid uid now w) = Inr True"
    and "store (snd (delete_note nid uid now w))
       = after_request (put_notes uid
           (AList.update nid
              (AList.merge old [(''is_deleted'', FBool True), (''updated_at'', FTime now)])
              (notes_of (store w) uid))
           (after_request (after_request (store w))))"
proof -
  let ?data = "[(''is_deleted'', FBool True), (''updated_at'', FTime now)]"
  let ?w1 = "w\<lparr>store := after_request (store w)\<rparr>"
  let ?fs2 = "after_request (put_notes uid
           (AList.update nid (AList.merge old ?data) (notes_of (store w) uid))
           (after_request (after_request (store w))))"
  let ?tail = "andthen (on_cache (invalidate_note nid uid)) (\<lambda>_.
            andthen (on_cache (invalidate_user_notes uid)) (\<lambda>_.
            andthen (on_cache (increment_notes_count uid False (- 1))) (\<lambda>_.
            andthen (on_cache (increment_notes_count uid True 1)) (\<lambda>_.
            ret True))))"
  have get: "on_store (get_subcollection_document uid nid) w = (Inr (Some (with_id nid old)), ?w1)"
    using ans old by (intro on_store_Inr) (simp add: get_doc_answers stored_def)
  have upd: "on_store (update_subcollection_document uid nid ?data) ?w1
      = (Inr (Some (with_id nid (AList.merge old ?data))), w\<lparr>store := ?fs2\<rparr>)"
    using ans old by (simp add: on_store_def update_doc_answers stored_def del: merge_simps)
  note step1 = andthen_Inr [of "on_store (get_subcollection_document uid nid)" w, OF get]
  note step2 = andthen_Inr [of "on_store (update_subcollection_document uid nid ?data)" ?w1, OF upd]
  obtain w3 where tail: "?tail (w\<lparr>store := ?fs2\<rparr>) = (Inr True, w3)"
    using yields_delete_tail [of nid uid] unfolding yields_def by blast
  with frame_delete_tail [of nid uid] have "store w3 = ?fs2"
    unfolding store_frame_def by fastforce
  moreover have "delete_note nid uid now w = (Inr True, w3)"
    unfolding delete_note_def try_except_def
    by (simp add: step1 step2 tail del: merge_simps)
  ultimately show "fst (delete_note nid uid now w) = Inr True"
    and "store (snd (delete_note nid uid now w)) = ?fs2" by simp_all
qed

lemma note_of_dict_is_deleted:
  "note_of_dict uid dd = Inr n \<Longrightarrow> map_of dd ''is_deleted'' = Some (FBool b) \<Longrightarrow> is_deleted n = b"
  unfolding note_of_dict_def Note_def item_def first_def
  by (auto simp: Let_def split: sum.splits option.splits fval.splits if_splits)

lemma note_of_dict_id:
  "note_of_dict uid dd = Inr n \<Longrightarrow> user_id n = uid \<and> map_of dd ''id'' = Some (FStr (note_id n))"
  unfolding note_of_dict_def Note_def item_def first_def
  by (auto simp: Let_def split: sum.splits option.splits fval.splits if_splits)

lemma with_id_lookup:
  "map_of (with_id nid d) k = (case map_of d k of Some v \<Rightarrow> Some v
      | None \<Rightarrow> if k = ''id'' then Some (FStr nid) else None)"
  by (simp add: with_id_def merge_conv' map_add_def split: option.splits)

lemma on_cache_fst: "fst (on_cache m w) = fst (m (cache w))"
  by (simp add: on_cache_def split: prod.splits)

lemma on_cache_store: "store (snd (on_cache m w)) = store w"
  by (simp add: on_cache_def split: prod.splits)

lemma on_cache_eq: "on_cache m w = (fst (m (cache w)), w\<lparr>cache := snd (m (cache w))\<rparr>)"
  by (simp add: on_cache_def split: prod.splits)

lemma andthen_lift_Inr: "andthen (lift (Inr a)) f s = f a s"
  by (simp add: andthen_def lift_def)

lemma get_note_miss:
  assumes ans: "store_answers (store w)"
    and d: "stored w uid nid = Some d"
    and n: "note_of_dict uid (with_id nid d) = Inr n"
    and miss: "fst (cache_get_note nid uid (cache w)) = Inr None"
  shows "fst (get_note nid uid w) = Inr (Some n)"
proof -
  let ?w0 = "w\<lparr>cache := snd (cache_get_note nid uid (cache w))\<rparr>"
  let ?w1 = "?w0\<lparr>store := after_request (store w)\<rparr>"
  have c: "on_cache (cache_get_note nid uid) w = (Inr None, ?w0)"
    using miss by (simp add: on_cache_eq)
  have get: "on_store (get_subcollection_document uid nid) ?w0 = (Inr (Some (with_id nid d)), ?w1)"
    using ans d by (simp add: on_store_def get_doc_answers stored_def)
  obtain v w2 where set: "on_cache (cache_set_note n None) ?w1 = (Inr v, w2)"
    using yields_set_note [of n None] unfolding yields_def by blast
  note step0 = andthen_Inr [of "on_cache (cache_get_note nid uid)" w, OF c]
  note step1 = andthen_Inr [of "on_store (get_subcollection_document uid nid)" ?w0, OF get]
  note step2 = andthen_Inr [of "on_cache (cache_set_note n None)" ?w1, OF set]
  show ?thesis
    unfolding get_note_def try_except_def
    by (simp add: step0 if_truthy_def step1 n andthen_lift_Inr step2 ret_def)
qed

lemma get_note_hit:
  assumes hit: "fst (cache_get_note nid uid (cache w)) = Inr (Some (RNote c))"
    and valid: "valid_note c"
  shows "get_note nid uid w = (Inr (Some c), w\<lparr>cache := snd (cache_get_note nid uid (cache w))\<rparr>)"
proof -
  let ?w0 = "w\<lparr>cache := snd (cache_get_note nid uid (cache w))\<rparr>"
  have c: "on_cache (cache_get_note nid uid) w = (Inr (Some (RNote c)), ?w0)"
    using hit by (simp add: on_cache_eq)
  note step0 = andthen_Inr [of "on_cache (cache_get_note nid uid)" w, OF c]
  show ?thesis
    unfolding get_note_def try_except_def
    by (simp add: step0 if_truthy_def truthy_def decode_note_def valid andthen_lift_Inr ret_def)
qed

lemma answers_after_delete:
  assumes "store_answers (store w)" "stored w uid nid = Some old"
  shows "store_answers (store (snd (delete_note nid uid now w)))"
    and "stored (snd (delete_note nid uid now w)) uid nid
       = Some (AList.merge old [(''is_deleted'', FBool True), (''updated_at'', FTime now)])"
  using assms
  by (simp_all add: delete_note_answers(2) stored_def update_conv' del: merge_simps)

text \<open>
  C10, as the code has it.  Let a note's document be stored with \<^verbatim>\<open>is_deleted\<close> true, and
  let \<open>n\<close> be the note that the service builds from it.  When the read reaches the store,
  that is on a cache miss (no entry, or a cache that fails) with a store that answers,
  \<^verbatim>\<open>get_note\<close> returns \<open>n\<close>, whose \<^verbatim>\<open>is_deleted\<close> is true: the read path has no filter on
  \<^verbatim>\<open>is_deleted\<close>.  On a cache hit, \<^verbatim>\<open>get_note\<close> returns the cached copy and does not ask the
  store: only the cache has changed afterwards.
\<close>

theorem get_note_returns_soft_deleted:
  "(stored w uid nid = Some d \<and> map_of d ''is_deleted'' = Some (FBool True)
      \<and> note_of_dict uid (with_id nid d) = Inr n
      \<and> store_answers (store w) \<and> fst (cache_get_note nid uid (cache w)) = Inr None
      \<longrightarrow> fst (get_note nid uid w) = Inr (Some n) \<and> is_deleted n)
   \<and> (fst (cache_get_note nid uid (cache w)) = Inr (Some (RNote c)) \<and> valid_note c
      \<longrightarrow> get_note nid uid w
            = (Inr (Some c), w\<lparr>cache := snd (cache_get_note nid uid (cache w))\<rparr>))"
proof (intro conjI impI)
  assume h: "stored w uid nid = Some d \<and> map_of d ''is_deleted'' = Some (FBool True)
      \<and> note_of_dict uid (with_id nid d) = Inr n
      \<and> store_answers (store w) \<and> fst (cache_get_note nid uid (cache w)) = Inr None"
  with get_note_miss [of w uid nid d n] show "fst (get_note nid uid w) = Inr (Some n)"
    by blast
  from h have "map_of (with_id nid d) ''is_deleted'' = Some (FBool True)"
    by (simp add: with_id_lookup)
  with h note_of_dict_is_deleted [of uid "with_id nid d" n True] show "is_deleted n"
    by blast
next
  assume "fst (cache_get_note nid uid (cache w)) = Inr (Some (RNote c)) \<and> valid_note c"
  with get_note_hit [of nid uid w c] show "get_note nid uid w
      = (Inr (Some c), w\<lparr>cache := snd (cache_get_note nid uid (cache w))\<rparr>)"
    by blast
qed

theorem get_note_soft_deleted_witness:
  "stored deleted_world ''u'' ''1'' = Some deleted_doc
   \<and> map_of deleted_doc ''is_deleted'' = Some (FBool True)
   \<and> note_of_dict ''u'' (with_id ''1'' deleted_doc) = Inr deleted_note
   \<and> store_answers (store deleted_world)
   \<and> fst (cache_get_note ''1'' ''u'' (cache deleted_world)) = Inr None
   \<and> fst (get_note ''1'' ''u'' deleted_world) = Inr (Some deleted_note)
   \<and> is_deleted deleted_note
   \<and> fst (cache_get_note ''1'' ''u'' (cache stale_world)) = Inr (Some (RNote cached_note))
   \<and> valid_note cached_note
   \<and> fst (get_note ''1'' ''u'' stale_world) = Inr (Some cached_note)
   \<and> store (snd (get_note ''1'' ''u'' stale_world)) = store stale_world"
proof -
  have a: "stored deleted_world ''u'' ''1'' = Some deleted_doc" by code_simp
  have b: "map_of deleted_doc ''is_deleted'' = Some (FBool True)" by code_simp
  have c: "note_of_dict ''u'' (with_id ''1'' deleted_doc) = Inr deleted_note" by code_simp
  have d: "store_answers (store deleted_world)" by code_simp
  have e: "fst (cache_get_note ''1'' ''u'' (cache deleted_world)) = Inr None" by code_simp
  have f: "fst (cache_get_note ''1'' ''u'' (cache stale_world)) = Inr (Some (RNote cached_note))"
    by code_simp
  have g: "valid_note cached_note" by code_simp
  from get_note_returns_soft_deleted
    [of deleted_world "''u''" "''1''" deleted_doc deleted_note undefined] a b c d e
  have miss: "fst (get_note ''1'' ''u'' deleted_world) = Inr (Some deleted_note)
      \<and> is_deleted deleted_note"
    by blast
  from get_note_returns_soft_deleted
    [of stale_world "''u''" "''1''" undefined undefined cached_note] f g
  have "get_note ''1'' ''u'' stale_world
      = (Inr (Some cached_note),
         stale_world\<lparr>cache := snd (cache_get_note ''1'' ''u'' (cache stale_world))\<rparr>)"
    by blast
  then have hit: "fst (get_note ''1'' ''u'' stale_world) = Inr (Some cached_note)
      \<and> store (snd (get_note ''1'' ''u'' stale_world)) = store stale_world"
    by simp
  from miss hit a b c d e f g show ?thesis by blast
qed

text \<open>
  C10 as stated fails when the cache holds a copy from before the delete.  In
  \<open>stale_world\<close> the delete reached the store while the cache backend failed, so the
  invalidation did nothing: the stored note has \<^verbatim>\<open>is_deleted\<close> true, and \<^verbatim>\<open>get_note\<close> returns
  the cached copy, whose \<^verbatim>\<open>is_deleted\<close> is false.
\<close>

theorem stale_cache_hides_soft_delete:
  "stored stale_world ''u'' ''1'' = Some deleted_doc
   \<and> map_of deleted_doc ''is_deleted'' = Some (FBool True)
   \<and> fst (get_note ''1'' ''u'' stale_world) = Inr (Some cached_note)
   \<and> is_deleted cached_note = False"
  by code_simp

text \<open>
  C7.  For a note that exists, whatever note an update or a delete is aimed at and
  whatever the store and the cache do, its document is still stored under the same owner
  and identifier afterwards, with the same \<^verbatim>\<open>created_at\<close> (and no \<^verbatim>\<open>id\<close> field written).
  With a store that answers, deleting the note succeeds and leaves its document in
  place with \<^verbatim>\<open>is_deleted\<close> true and \<^verbatim>\<open>updated_at\<close> set to the time of the delete.
\<close>

theorem update_delete_keep_identity:
  assumes "stored w uid nid = Some old"
  shows "(\<exists>new. stored (snd (update_note n nd u now w)) uid nid = Some new
            \<and> map_of new ''created_at'' = map_of old ''created_at''
            \<and> map_of new ''id'' = map_of old ''id'')
       \<and> (\<exists>new. stored (snd (delete_note n u now w)) uid nid = Some new
            \<and> map_of new ''created_at'' = map_of old ''created_at''
            \<and> map_of new ''id'' = map_of old ''id'')
       \<and> (store_answers (store w) \<longrightarrow>
            fst (delete_note nid uid now w) = Inr True
            \<and> (\<exists>new. stored (snd (delete_note nid uid now w)) uid nid = Some new
                  \<and> map_of new ''is_deleted'' = Some (FBool True)
                  \<and> map_of new ''updated_at'' = Some (FTime now)))"
proof (intro conjI impI)
  from update_note_stored [of n nd u now w uid nid] assms
  show "\<exists>new. stored (snd (update_note n nd u now w)) uid nid = Some new
            \<and> map_of new ''created_at'' = map_of old ''created_at''
            \<and> map_of new ''id'' = map_of old ''id''"
    by (auto simp: merged_lookup fields_to_write_def)
  from delete_note_stored [of n u now w uid nid] assms
  show "\<exists>new. stored (snd (delete_note n u now w)) uid nid = Some new
            \<and> map_of new ''created_at'' = map_of old ''created_at''
            \<and> map_of new ''id'' = map_of old ''id''"
    by (auto simp: update_conv')
next
  assume ans: "store_answers (store w)"
  from delete_note_answers(1) [OF ans assms]
  show "fst (delete_note nid uid now w) = Inr True" .
  from answers_after_delete(2) [OF ans assms]
  show "\<exists>new. stored (snd (delete_note nid uid now w)) uid nid = Some new
                  \<and> map_of new ''is_deleted'' = Some (FBool True)
                  \<and> map_of new ''updated_at'' = Some (FTime now)"
    by (simp add: update_conv')
qed

theorem update_delete_identity_witness:
  "stored one_note_world ''u'' ''1'' = Some (note_data_dict sample_note 1)
   \<and> store_answers (store one_note_world)
   \<and> fst (delete_note ''1'' ''u'' 9 one_note_world) = Inr True
   \<and> (\<exists>new. stored (snd (delete_note ''1'' ''u'' 9 one_note_world)) ''u'' ''1'' = Some new
         \<and> map_of new ''is_deleted'' = Some (FBool True)
         \<and> map_of new ''updated_at'' = Some (FTime 9))
   \<and> (\<exists>new. stored (snd (update_note ''1'' retitle ''u'' 9 one_note_world)) ''u'' ''1'' = Some new
         \<and> map_of new ''created_at'' = Some (FTime 1))"
proof -
  have a: "stored one_note_world ''u'' ''1'' = Some (note_data_dict sample_note 1)" by code_simp
  have b: "store_answers (store one_note_world)" by code_simp
  have c: "map_of (note_data_dict sample_note 1) ''created_at'' = Some (FTime 1)" by code_simp
  from update_delete_keep_identity [OF a, of "''1''" retitle "''u''" 9] b c
  show ?thesis using a by auto
qed




section \<open>The cached count and the pages of a listing\<close>

text \<open>
  C1 fails on the code.  From the empty store and cache, with a cache that answers
  throughout, two creates by one owner leave two notes in the store, and
  \<^verbatim>\<open>get_notes_count\<close> returns 1: \<^verbatim>\<open>create_note\<close> calls \<^verbatim>\<open>invalidate_user_notes\<close>, which deletes
  the owner's count keys, and then increments a key that is absent.  One create and one
  delete give \<open>-1\<close>.  Once the count entry has expired, the next call counts the stored
  notes and returns 2.
\<close>

theorem count_after_creates_is_not_the_number_of_notes:
  "length (notes_of (store two_notes_world) ''u'') = 2
   \<and> fst (get_notes_count ''u'' False two_notes_world) = Inr 1
   \<and> fst (get_notes_count ''u'' False
        (expire_key (get_user_notes_count_key ''u'' False) two_notes_world)) = Inr 2
   \<and> fst (get_notes_count ''u'' False (run [DeleteNote ''1'' ''u'' 3] one_note_world)) = Inr (- 1)"
  by code_simp

text \<open>
  C2 fails on the code.  \<^verbatim>\<open>get_notes\<close> asks the store for the first \<open>limit + offset\<close>
  matching documents and sorts only those.  With 25 notes whose \<^verbatim>\<open>updated_at\<close> are 1 to 25,
  \<^verbatim>\<open>get_notes(u, False, limit=10, offset=10)\<close> on a cache miss returns the notes with
  \<^verbatim>\<open>updated_at\<close> 10 down to 1; the notes ranked 11 to 20 are those with 15 down to 6.  With
  the two notes of \<open>two_notes_world\<close>, the first page of one note holds the older note.
\<close>

theorem page_is_cut_before_it_is_sorted:
  "length (notes_of (store notes25) ''u'') = 25
   \<and> map_sum id (map updated_at) (fst (get_notes ''u'' False 10 10 notes25))
       = Inr [10, 9, 8, 7, 6, 5, 4, 3, 2, 1]
   \<and> map updated_at_key (ranked_page notes25 ''u'' False 10 10)
       = [15, 14, 13, 12, 11, 10, 9, 8, 7, 6]
   \<and> map_sum id (map updated_at) (fst (get_notes ''u'' False 1 0 two_notes_world)) = Inr [1]
   \<and> map updated_at_key (ranked_page two_notes_world ''u'' False 1 0) = [2]"
  by code_simp

end
